theory Spec2Isabelle
  imports Complex_Main "HOL-Library.Signed_Division" "HOL-Library.Product_Lexorder"
begin

section \<open>Numeric types of the C source\<close>

text \<open>
  The layout code of \<^verbatim>\<open>clutter-box-layout.c\<close> mixes \<^verbatim>\<open>gfloat\<close> (sizes reported by
  actors, box coordinates), \<^verbatim>\<open>gint\<close> (the slack, the cursor, the size given to a child)
  and \<^verbatim>\<open>guint\<close> (the spacing).

  A \<^verbatim>\<open>gfloat\<close> is modelled by an exact rational: sums and differences do not round.
  Assigning a \<^verbatim>\<open>gfloat\<close> to a \<^verbatim>\<open>gint\<close> truncates toward zero (C leaves the conversion of
  a value outside the range of \<^verbatim>\<open>gint\<close> undefined; \<open>gfloat_to_gint\<close> gives the truncated
  number there too).

  A \<^verbatim>\<open>gint\<close> has 32 bits. Its values are integers, and the result of an addition or a
  subtraction is brought back into the range by \<open>gint_of\<close>, which keeps the low 32 bits
  in two's complement. \<^verbatim>\<open>/\<close> and \<^verbatim>\<open>%\<close> on \<^verbatim>\<open>gint\<close> truncate toward zero (\<open>sdiv\<close>,
  \<open>smod\<close>). A product of a \<^verbatim>\<open>guint\<close> and a \<^verbatim>\<open>gint\<close> is computed in \<^verbatim>\<open>guint\<close>, modulo
  \<open>2 ^ 32\<close> (\<open>guint_of\<close>). An expression that adds a \<^verbatim>\<open>guint\<close> to a \<^verbatim>\<open>gint\<close> and stores
  the result in a \<^verbatim>\<open>gint\<close> is computed modulo \<open>2 ^ 32\<close> as well, so it is \<open>gint_of\<close> of
  the mathematical result. Counters of children (\<open>i\<close>, \<open>n_children\<close>, \<open>nvis_children\<close>)
  are not wrapped: a list of children is far shorter than \<open>2 ^ 31\<close>.
\<close>

type_synonym gfloat = rat
type_synonym gint = int
type_synonym guint = nat

definition gfloat_to_gint :: "gfloat \<Rightarrow> gint" where
  "gfloat_to_gint f = (if 0 \<le> f then \<lfloor>f\<rfloor> else \<lceil>f\<rceil>)"

definition gint_of :: "int \<Rightarrow> gint" where
  "gint_of k = (k + 2 ^ 31) mod 2 ^ 32 - 2 ^ 31"

definition guint_of :: "int \<Rightarrow> guint" where
  "guint_of k = nat (k mod 2 ^ 32)"

section \<open>Size requests and the gap distributor\<close>

text \<open>
  \<^verbatim>\<open>struct _ClutterRequestedSize\<close>; its \<^verbatim>\<open>actor\<close> pointer is written once and never
  read, so it is left out.
\<close>

record ClutterRequestedSize =
  minimum_size :: gfloat
  natural_size :: gfloat

text \<open>
  \<^verbatim>\<open>compare_gap\<close>: the comparator handed to the sort. \<open>c1\<close> and \<open>c2\<close> are the two
  indices being compared, \<open>sizes\<close> the array passed as user data.
\<close>

definition compare_gap :: "ClutterRequestedSize list \<Rightarrow> guint \<Rightarrow> guint \<Rightarrow> gint" where
  "compare_gap sizes c1 c2 =
     (let d1 = gfloat_to_gint (max (natural_size (sizes ! c1) - minimum_size (sizes ! c1)) 0);
          d2 = gfloat_to_gint (max (natural_size (sizes ! c2) - minimum_size (sizes ! c2)) 0);
          delta = d2 - d1
      in if 0 = delta then int c2 - int c1 else delta)"

text \<open>
  \<^verbatim>\<open>g_qsort_with_data\<close> belongs to GLib: it sorts the array so that an element for
  which the comparator answers a negative number against another one comes first. It is
  modelled by insertion sort.
\<close>

fun insert_with_data :: "('a \<Rightarrow> 'a \<Rightarrow> gint) \<Rightarrow> 'a \<Rightarrow> 'a list \<Rightarrow> 'a list" where
  "insert_with_data cmp x [] = [x]"
| "insert_with_data cmp x (y # ys) =
     (if cmp x y \<le> 0 then x # y # ys else y # insert_with_data cmp x ys)"

definition g_qsort_with_data :: "('a \<Rightarrow> 'a \<Rightarrow> gint) \<Rightarrow> 'a list \<Rightarrow> 'a list" where
  "g_qsort_with_data cmp xs = foldr (insert_with_data cmp) xs []"

text \<open>
  What \<^verbatim>\<open>distribute_natural_allocation\<close> leaves behind: whether the guard
  \<^verbatim>\<open>g_return_val_if_fail\<close> logged its critical warning, the value returned, the array
  \<open>sizes\<close> after the call, and (a ghost field, for the statements about the order) the
  elements \<^verbatim>\<open>spreading[i]\<close> the loop went through, first one first.
\<close>

record distribution =
  critical :: bool
  remainder :: gint
  sizes_out :: "ClutterRequestedSize list"
  processed :: "guint list"

text \<open>
  The loop \<^verbatim>\<open>for (i = n - 1; extra_space > 0 && i >= 0; --i)\<close>. The counter of the model
  is \<open>i + 1\<close>: \<open>0\<close> is the exit by \<^verbatim>\<open>i < 0\<close>, \<open>Suc i\<close> a turn with the source's \<open>i\<close>.
  \<^verbatim>\<open>extra_space + i\<close> and \<^verbatim>\<open>extra_space -= extra\<close> are \<^verbatim>\<open>gint\<close> operations;
  \<^verbatim>\<open>minimum_size += extra\<close> is a \<^verbatim>\<open>gfloat\<close> one.
\<close>

fun distribute_loop ::
  "guint list \<Rightarrow> nat \<Rightarrow> gint \<Rightarrow> ClutterRequestedSize list \<Rightarrow> guint list \<Rightarrow> distribution"
where
  "distribute_loop spreading 0 extra_space sizes seen =
     \<lparr>critical = False, remainder = extra_space, sizes_out = sizes, processed = seen\<rparr>"
| "distribute_loop spreading (Suc i) extra_space sizes seen =
     (if extra_space > 0 then
        (let glue = gint_of (extra_space + int i) sdiv (int i + 1);
             c = spreading ! i;
             gap = gfloat_to_gint (natural_size (sizes ! c) - minimum_size (sizes ! c));
             extra = min glue gap;
             sizes' = sizes[c := (sizes ! c)
                        \<lparr>minimum_size := minimum_size (sizes ! c) + of_int extra\<rparr>]
         in distribute_loop spreading i (gint_of (extra_space - extra)) sizes' (seen @ [c]))
      else \<lparr>critical = False, remainder = extra_space, sizes_out = sizes, processed = seen\<rparr>)"

text \<open>
  \<^verbatim>\<open>distribute_natural_allocation\<close>; \<^verbatim>\<open>n_requested_sizes\<close> is the length of \<open>sizes\<close>.
\<close>

definition distribute_natural_allocation ::
  "gint \<Rightarrow> ClutterRequestedSize list \<Rightarrow> distribution"
where
  "distribute_natural_allocation extra_space sizes =
     (if \<not> extra_space \<ge> 0
      then \<lparr>critical = True, remainder = 0, sizes_out = sizes, processed = []\<rparr>
      else
        (let n_requested_sizes = length sizes;
             spreading = g_qsort_with_data (compare_gap sizes) [0..<n_requested_sizes]
         in distribute_loop spreading n_requested_sizes extra_space sizes []))"

section \<open>Children, layout properties and boxes\<close>

text \<open>
  A child of the container with the layout properties the box layout keeps for it:
  the actor's visibility flag and its two preferred-size queries (each maps the extent
  given for the other axis to the pair of minimum and natural size), and the
  \<^verbatim>\<open>x_fill\<close>, \<^verbatim>\<open>y_fill\<close> and \<^verbatim>\<open>expand\<close> bits of its \<^verbatim>\<open>ClutterBoxChild\<close>.
\<close>

record ClutterBoxChild =
  visible :: bool
  preferred_width :: "gfloat \<Rightarrow> gfloat \<times> gfloat"
  preferred_height :: "gfloat \<Rightarrow> gfloat \<times> gfloat"
  x_fill :: bool
  y_fill :: bool
  expand :: bool

datatype ClutterTextDirection =
  CLUTTER_TEXT_DIRECTION_DEFAULT | CLUTTER_TEXT_DIRECTION_LTR | CLUTTER_TEXT_DIRECTION_RTL

record ClutterContainer =
  get_children :: "ClutterBoxChild list"
  get_text_direction :: ClutterTextDirection

record ClutterBoxLayoutPrivate =
  spacing :: guint
  is_vertical :: bool
  is_pack_start :: bool
  is_homogeneous :: bool

record ClutterActorBox =
  x1 :: gfloat
  y1 :: gfloat
  x2 :: gfloat
  y2 :: gfloat

section \<open>Preferred size of the box\<close>

text \<open>
  The loops of \<^verbatim>\<open>get_preferred_width\<close> and \<^verbatim>\<open>get_preferred_height\<close>. The state is
  \<open>(n_children, minimum, natural)\<close>; both out-pointers are taken as given. After the
  loop, \<^verbatim>\<open>priv->spacing * (n_children - 1)\<close> is a \<^verbatim>\<open>guint\<close> product, added to a
  \<^verbatim>\<open>gfloat\<close>.
\<close>

fun preferred_width_loop ::
  "ClutterBoxLayoutPrivate \<Rightarrow> gfloat \<Rightarrow> ClutterBoxChild list \<Rightarrow>
     gint \<times> gfloat \<times> gfloat \<Rightarrow> gint \<times> gfloat \<times> gfloat"
where
  "preferred_width_loop priv for_height [] st = st"
| "preferred_width_loop priv for_height (child # l) (n_children, min_width, natural_width) =
     (if \<not> visible child
      then preferred_width_loop priv for_height l (n_children, min_width, natural_width)
      else
        (let (child_min, child_nat) =
               preferred_width child (if \<not> is_vertical priv then for_height else - 1)
         in if is_vertical priv
            then preferred_width_loop priv for_height l
                   (n_children + 1, max child_min min_width, max child_nat natural_width)
            else preferred_width_loop priv for_height l
                   (n_children + 1, min_width + child_min, natural_width + child_nat)))"

definition get_preferred_width ::
  "ClutterBoxLayoutPrivate \<Rightarrow> ClutterContainer \<Rightarrow> gfloat \<Rightarrow> gfloat \<times> gfloat"
where
  "get_preferred_width priv container for_height =
     (let is_rtl = (if \<not> is_vertical priv
                    then get_text_direction container = CLUTTER_TEXT_DIRECTION_RTL
                    else False);
          children = get_children container;
          (n_children, min_width, natural_width) =
             preferred_width_loop priv for_height
               (if is_rtl then rev children else children) (0, 0, 0)
      in if \<not> is_vertical priv \<and> n_children > 1
         then (min_width + of_nat (guint_of (int (spacing priv) * (n_children - 1))),
               natural_width + of_nat (guint_of (int (spacing priv) * (n_children - 1))))
         else (min_width, natural_width))"

fun preferred_height_loop ::
  "ClutterBoxLayoutPrivate \<Rightarrow> gfloat \<Rightarrow> ClutterBoxChild list \<Rightarrow>
     gint \<times> gfloat \<times> gfloat \<Rightarrow> gint \<times> gfloat \<times> gfloat"
where
  "preferred_height_loop priv for_width [] st = st"
| "preferred_height_loop priv for_width (child # l) (n_children, min_height, natural_height) =
     (if \<not> visible child
      then preferred_height_loop priv for_width l (n_children, min_height, natural_height)
      else
        (let (child_min, child_nat) =
               preferred_height child (if is_vertical priv then for_width else - 1)
         in if \<not> is_vertical priv
            then preferred_height_loop priv for_width l
                   (n_children + 1, max child_min min_height, max child_nat natural_height)
            else preferred_height_loop priv for_width l
                   (n_children + 1, min_height + child_min, natural_height + child_nat)))"

definition get_preferred_height ::
  "ClutterBoxLayoutPrivate \<Rightarrow> ClutterContainer \<Rightarrow> gfloat \<Rightarrow> gfloat \<times> gfloat"
where
  "get_preferred_height priv container for_width =
     (let is_rtl = (if \<not> is_vertical priv
                    then get_text_direction container = CLUTTER_TEXT_DIRECTION_RTL
                    else False);
          children = get_children container;
          (n_children, min_height, natural_height) =
             preferred_height_loop priv for_width
               (if is_rtl then rev children else children) (0, 0, 0)
      in if is_vertical priv \<and> n_children > 1
         then (min_height + of_nat (guint_of (int (spacing priv) * (n_children - 1))),
               natural_height + of_nat (guint_of (int (spacing priv) * (n_children - 1))))
         else (min_height, natural_height))"

section \<open>Allocation\<close>

text \<open>\<^verbatim>\<open>count_expand_children\<close>: the pair \<open>(visible_children, expand_children)\<close>.\<close>

fun count_expand_loop :: "ClutterBoxChild list \<Rightarrow> gint \<times> gint \<Rightarrow> gint \<times> gint" where
  "count_expand_loop [] counts = counts"
| "count_expand_loop (child # children) (visible_children, expand_children) =
     (if visible child
      then count_expand_loop children
             (visible_children + 1,
              if expand child then expand_children + 1 else expand_children)
      else count_expand_loop children (visible_children, expand_children))"

definition count_expand_children :: "ClutterContainer \<Rightarrow> gint \<times> gint" where
  "count_expand_children container = count_expand_loop (get_children container) (0, 0)"

text \<open>
  The ways an allocation pass does not come back: the two \<^verbatim>\<open>g_error\<close> calls that
  check a child's request (\<^verbatim>\<open>g_error\<close> aborts the process).
\<close>

datatype allocate_fault =
  G_ERROR_MINIMUM_BELOW_ZERO
| G_ERROR_NATURAL_BELOW_MINIMUM

text \<open>
  The first loop of \<^verbatim>\<open>clutter_box_layout_allocate\<close>: it asks every visible child for
  its size along the axis of the box, checks it, takes the minimum off \<^verbatim>\<open>size\<close> (\<open>sz\<close> here;
  the difference is a \<^verbatim>\<open>gfloat\<close>, truncated at every turn when it is stored in the
  \<^verbatim>\<open>gint\<close>) and stores the request at the next free index of \<open>sizes\<close>.
\<close>

fun request_loop ::
  "ClutterBoxLayoutPrivate \<Rightarrow> ClutterActorBox \<Rightarrow> ClutterBoxChild list \<Rightarrow> gint \<Rightarrow>
     ClutterRequestedSize list \<Rightarrow> allocate_fault + gint \<times> ClutterRequestedSize list"
where
  "request_loop priv box [] sz sizes = Inr (sz, sizes)"
| "request_loop priv box (child # children) sz sizes =
     (if \<not> visible child then request_loop priv box children sz sizes
      else
        (let (minimum, natural) =
               (if is_vertical priv then preferred_height child (x2 box - x1 box)
                else preferred_width child (y2 box - y1 box))
         in if minimum < 0 then Inl G_ERROR_MINIMUM_BELOW_ZERO
            else if natural < minimum then Inl G_ERROR_NATURAL_BELOW_MINIMUM
            else request_loop priv box children
                   (gfloat_to_gint (of_int sz - minimum))
                   (sizes @ [\<lparr>minimum_size = minimum, natural_size = natural\<rparr>])))"

text \<open>
  The array \<open>sizes\<close> is made with \<^verbatim>\<open>g_newa\<close> for \<open>nvis_children\<close> elements and the second
  loop reads \<^verbatim>\<open>sizes[i]\<close> without a check. \<open>beyond\<close> stands for what the stack holds
  behind the array: \<open>beyond i\<close> is what the read finds at an index \<open>i\<close> that is not below
  the length of \<open>sizes\<close>. The pass goes on with that value.
\<close>

definition sizes_at ::
  "(nat \<Rightarrow> ClutterRequestedSize) \<Rightarrow> ClutterRequestedSize list \<Rightarrow> nat \<Rightarrow> ClutterRequestedSize"
where
  "sizes_at beyond sizes i = (if i < length sizes then sizes ! i else beyond i)"

text \<open>
  ``Assign the child's size'': the size of a visible child and the new value of
  \<open>n_extra_widgets\<close>. \<open>i\<close> is the loop's index, the position of the child in the list
  of all children.
\<close>

definition assign_size ::
  "(nat \<Rightarrow> ClutterRequestedSize) \<Rightarrow> ClutterBoxLayoutPrivate \<Rightarrow> ClutterRequestedSize list \<Rightarrow>
     gint \<Rightarrow> nat \<Rightarrow> ClutterBoxChild \<Rightarrow> gint \<Rightarrow> gint \<times> gint"
where
  "assign_size beyond priv sizes extra i child n_extra_widgets =
     (if is_homogeneous priv
      then (if n_extra_widgets > 0 then (gint_of (extra + 1), gint_of (n_extra_widgets - 1))
            else (extra, n_extra_widgets))
      else
        (let child_size = gfloat_to_gint (minimum_size (sizes_at beyond sizes i))
         in if expand child
            then (if n_extra_widgets > 0
                  then (gint_of (gint_of (child_size + extra) + 1),
                        gint_of (n_extra_widgets - 1))
                  else (gint_of (child_size + extra), n_extra_widgets))
            else (child_size, n_extra_widgets)))"

text \<open>
  The mirroring done last on the horizontal axis when the text runs right to left.
\<close>

definition mirror_rtl :: "ClutterActorBox \<Rightarrow> ClutterActorBox \<Rightarrow> ClutterActorBox" where
  "mirror_rtl box child_allocation =
     (let width = x2 child_allocation - x1 child_allocation;
          new_x1 = x2 box - x1 box - x1 child_allocation
                     - (x2 child_allocation - x1 child_allocation)
      in child_allocation\<lparr>x1 := new_x1, x2 := new_x1 + width\<rparr>)"

text \<open>
  ``Assign the child's position'': the rectangle handed to \<^verbatim>\<open>allocate_box_child\<close> and
  the cursors \<open>x\<close> and \<open>y\<close> after the child.
\<close>

definition assign_position ::
  "(nat \<Rightarrow> ClutterRequestedSize) \<Rightarrow> ClutterBoxLayoutPrivate \<Rightarrow> ClutterActorBox \<Rightarrow> bool \<Rightarrow>
     ClutterRequestedSize list \<Rightarrow> nat \<Rightarrow> ClutterBoxChild \<Rightarrow> gint \<Rightarrow> ClutterActorBox \<Rightarrow>
     gint \<Rightarrow> gint \<Rightarrow> ClutterActorBox \<times> gint \<times> gint"
where
  "assign_position beyond priv box is_rtl sizes i child child_size child_allocation x y =
     (if is_vertical priv then
        (let placed =
               (if y_fill child
                then child_allocation
                       \<lparr>y1 := of_int y, y2 := of_int y + max 1 (of_int child_size)\<rparr>
                else
                  (let new_y1 = of_int y
                         + (of_int child_size - minimum_size (sizes_at beyond sizes i)) / 2
                   in child_allocation
                        \<lparr>y1 := new_y1,
                         y2 := new_y1 + minimum_size (sizes_at beyond sizes i)\<rparr>))
         in if is_pack_start priv
            then (placed, x, gint_of (y + (child_size + int (spacing priv))))
            else (placed\<lparr>y1 := y1 placed - of_int child_size,
                         y2 := y2 placed - of_int child_size\<rparr>,
                  x, gint_of (y - (child_size + int (spacing priv)))))
      else
        (let placed =
               (if x_fill child
                then child_allocation
                       \<lparr>x1 := of_int x, x2 := of_int x + of_int (max 1 child_size)\<rparr>
                else
                  (let new_x1 = of_int x
                         + (of_int child_size - minimum_size (sizes_at beyond sizes i)) / 2
                   in child_allocation
                        \<lparr>x1 := new_x1,
                         x2 := new_x1 + minimum_size (sizes_at beyond sizes i)\<rparr>));
             (moved, new_x) =
               (if is_pack_start priv
                then (placed, gint_of (x + (child_size + int (spacing priv))))
                else (placed\<lparr>x1 := x1 placed - of_int child_size,
                              x2 := x2 placed - of_int child_size\<rparr>,
                      gint_of (x - (child_size + int (spacing priv)))))
         in (if is_rtl then mirror_rtl box moved else moved, new_x, y)))"

text \<open>
  One call of \<^verbatim>\<open>allocate_box_child\<close>: the child (by its position in the list of
  children), the rectangle passed, and the value \<open>child_size\<close> had for it.
\<close>

record box_child_call =
  call_child :: nat
  call_child_size :: gint
  call_box :: ClutterActorBox

text \<open>
  The second loop, over the children from the last one to the first, each with its
  position \<open>i\<close> in the list (\<open>i\<close> is decremented at every turn, also for a child that
  is not visible). The result is the list of the calls of \<^verbatim>\<open>allocate_box_child\<close>, in
  the order they are made.
\<close>

fun allocate_loop ::
  "(nat \<Rightarrow> ClutterRequestedSize) \<Rightarrow> ClutterBoxLayoutPrivate \<Rightarrow> ClutterActorBox \<Rightarrow> bool \<Rightarrow>
     ClutterRequestedSize list \<Rightarrow> gint \<Rightarrow> (nat \<times> ClutterBoxChild) list \<Rightarrow> ClutterActorBox \<Rightarrow>
     gint \<Rightarrow> gint \<Rightarrow> gint \<Rightarrow> box_child_call list"
where
  "allocate_loop beyond priv box is_rtl sizes extra [] child_allocation n_extra_widgets x y = []"
| "allocate_loop beyond priv box is_rtl sizes extra ((i, child) # children)
       child_allocation n_extra_widgets x y =
     (if \<not> visible child
      then allocate_loop beyond priv box is_rtl sizes extra children
             child_allocation n_extra_widgets x y
      else
        (let (child_size, n_extra_left) =
               assign_size beyond priv sizes extra i child n_extra_widgets;
             (child_box, new_x, new_y) =
               assign_position beyond priv box is_rtl sizes i child child_size
                 child_allocation x y
         in \<lparr>call_child = i, call_child_size = child_size, call_box = child_box\<rparr>
            # allocate_loop beyond priv box is_rtl sizes extra children
                child_box n_extra_left new_x new_y))"

text \<open>
  \<^verbatim>\<open>clutter_box_layout_allocate\<close>. \<^verbatim>\<open>(nvis_children - 1) * priv->spacing\<close> is a
  \<^verbatim>\<open>guint\<close> product. The two coordinates of \<open>child_allocation\<close> along the axis of the
  box hold no value before the loop and are written before every call; they start at
  \<open>0\<close> here.
\<close>

definition primary_extent :: "ClutterBoxLayoutPrivate \<Rightarrow> ClutterActorBox \<Rightarrow> gfloat" where
  "primary_extent priv box = (if is_vertical priv then y2 box - y1 box else x2 box - x1 box)"

definition clutter_box_layout_allocate ::
  "(nat \<Rightarrow> ClutterRequestedSize) \<Rightarrow> ClutterBoxLayoutPrivate \<Rightarrow> ClutterContainer \<Rightarrow>
     ClutterActorBox \<Rightarrow> allocate_fault + box_child_call list"
where
  "clutter_box_layout_allocate beyond priv container box =
     (let (nvis_children, nexpand_children) = count_expand_children container
      in if nvis_children \<le> 0 then Inr []
         else
           (let sz = gfloat_to_gint
                         (primary_extent priv box
                            - of_nat (guint_of ((nvis_children - 1) * int (spacing priv))))
            in case request_loop priv box (get_children container) sz [] of
                 Inl fault \<Rightarrow> Inl fault
               | Inr (sz, sizes) \<Rightarrow>
                   (let (sizes, extra, n_extra_widgets) =
                          (if is_homogeneous priv then
                             (let sz = gfloat_to_gint
                                           (primary_extent priv box
                                              - of_nat (guint_of
                                                  ((nvis_children - 1) * int (spacing priv))))
                              in (sizes, sz sdiv nvis_children, sz smod nvis_children))
                           else
                             (let spread = distribute_natural_allocation (max 0 sz) sizes;
                                  sz = remainder spread
                              in if nexpand_children > 0
                                 then (sizes_out spread,
                                       sz sdiv nexpand_children,
                                       sz smod nexpand_children)
                                 else (sizes_out spread, 0, 0)));
                        is_rtl = (if \<not> is_vertical priv
                                  then get_text_direction container = CLUTTER_TEXT_DIRECTION_RTL
                                  else False);
                        child_allocation =
                          (if is_vertical priv
                           then \<lparr>x1 = 0, y1 = 0, x2 = max 1 (x2 box - x1 box), y2 = 0\<rparr>
                           else \<lparr>x1 = 0, y1 = 0, x2 = 0, y2 = max 1 (y2 box - y1 box)\<rparr>);
                        x = (if is_vertical priv \<or> is_pack_start priv then 0
                             else gfloat_to_gint (0 + x2 box - x1 box));
                        y = (if is_vertical priv \<and> \<not> is_pack_start priv
                             then gfloat_to_gint (y2 box - y1 box) else 0);
                        children = get_children container
                    in Inr (allocate_loop beyond priv box is_rtl sizes extra
                              (rev (zip [0..<length children] children))
                              child_allocation n_extra_widgets x y))))"

section \<open>Notions used in the statements\<close>

text \<open>The values a \<^verbatim>\<open>gint\<close> can hold.\<close>

definition in_gint :: "int \<Rightarrow> bool" where
  "in_gint k \<longleftrightarrow> - (2 ^ 31) \<le> k \<and> k < 2 ^ 31"

text \<open>
  The request a child answers with in the first loop of the allocation, and what the two
  checks of that loop ask of it.
\<close>

definition request_of ::
  "ClutterBoxLayoutPrivate \<Rightarrow> ClutterActorBox \<Rightarrow> ClutterBoxChild \<Rightarrow> ClutterRequestedSize"
where
  "request_of priv box child =
     (let (minimum, natural) =
            (if is_vertical priv then preferred_height child (x2 box - x1 box)
             else preferred_width child (y2 box - y1 box))
      in \<lparr>minimum_size = minimum, natural_size = natural\<rparr>)"

definition consistent :: "ClutterRequestedSize \<Rightarrow> bool" where
  "consistent request \<longleftrightarrow> 0 \<le> minimum_size request \<and> minimum_size request \<le> natural_size request"

text \<open>One turn of \<^verbatim>\<open>size -= sizes[i].minimum_size\<close>.\<close>

definition take_off :: "gint \<Rightarrow> ClutterRequestedSize \<Rightarrow> gint" where
  "take_off sz request = gfloat_to_gint (of_int sz - minimum_size request)"

text \<open>
  The extent of a rectangle along the axis of the box and across it, and the fill flag
  that belongs to the axis of the box.
\<close>

definition primary_span :: "ClutterBoxLayoutPrivate \<Rightarrow> ClutterActorBox \<Rightarrow> gfloat" where
  "primary_span priv b = (if is_vertical priv then y2 b - y1 b else x2 b - x1 b)"

definition cross_span :: "ClutterBoxLayoutPrivate \<Rightarrow> ClutterActorBox \<Rightarrow> gfloat" where
  "cross_span priv b = (if is_vertical priv then x2 b - x1 b else y2 b - y1 b)"

definition fill_primary :: "ClutterBoxLayoutPrivate \<Rightarrow> ClutterBoxChild \<Rightarrow> bool" where
  "fill_primary priv child = (if is_vertical priv then y_fill child else x_fill child)"

text \<open>A call whose rectangle has been mirrored.\<close>

definition mirror_call :: "ClutterActorBox \<Rightarrow> box_child_call \<Rightarrow> box_child_call" where
  "mirror_call box call = call\<lparr>call_box := mirror_rtl box (call_box call)\<rparr>"

text \<open>
  Inputs for the worked examples: a visible child that fills both axes and answers every
  request with the same pair of sizes, and a box with its origin at \<open>(0, 0)\<close>.
\<close>

definition filling_child :: "gfloat \<Rightarrow> gfloat \<Rightarrow> bool \<Rightarrow> ClutterBoxChild" where
  "filling_child minimum natural expands =
     \<lparr>visible = True,
      preferred_width = (\<lambda>_. (minimum, natural)),
      preferred_height = (\<lambda>_. (minimum, natural)),
      x_fill = True, y_fill = True, expand = expands\<rparr>"

definition box_of_size :: "gfloat \<Rightarrow> gfloat \<Rightarrow> ClutterActorBox" where
  "box_of_size width height = \<lparr>x1 = 0, y1 = 0, x2 = width, y2 = height\<rparr>"

text \<open>A stack that holds zeroes behind the array \<open>sizes\<close>.\<close>

definition zeroed :: "nat \<Rightarrow> ClutterRequestedSize" where
  "zeroed i = \<lparr>minimum_size = 0, natural_size = 0\<rparr>"

text \<open>
  For the preferred size of the box: the children that count, the space between \<open>n\<close>
  of them, and the largest of a list of sizes as the loops compute it, starting from \<open>0\<close>.
\<close>

definition visible_children :: "ClutterContainer \<Rightarrow> ClutterBoxChild list" where
  "visible_children container = filter visible (get_children container)"

definition spacing_term :: "ClutterBoxLayoutPrivate \<Rightarrow> nat \<Rightarrow> gfloat" where
  "spacing_term priv n = (if n > 1 then of_nat ((spacing priv * (n - 1)) mod 2 ^ 32) else 0)"

definition largest :: "gfloat list \<Rightarrow> gfloat" where
  "largest sizes = Max (insert 0 (set sizes))"

text \<open>
  The two measures as the specification words them, for the list of the sizes of the
  visible children: along the axis their sum plus \<open>spacing * (n - 1)\<close> when more than
  one child is visible, across the axis their maximum.
\<close>

definition spec_measure_primary :: "nat \<Rightarrow> gfloat list \<Rightarrow> gfloat" where
  "spec_measure_primary gap_between sizes =
     sum_list sizes
       + (if length sizes > 1 then of_nat (gap_between * (length sizes - 1)) else 0)"

definition spec_measure_cross :: "gfloat list \<Rightarrow> gfloat" where
  "spec_measure_cross sizes = Max (set sizes)"

text \<open>
  The positions, in the list of children, of those that are visible; the space left for
  the children once the spacing is taken off (the value the allocation stores in the
  \<^verbatim>\<open>gint\<close> \<^verbatim>\<open>size\<close>).
\<close>

definition visible_positions :: "ClutterContainer \<Rightarrow> nat list" where
  "visible_positions container =
     filter (\<lambda>i. visible (get_children container ! i)) [0..<length (get_children container)]"

definition available_space ::
  "ClutterBoxLayoutPrivate \<Rightarrow> ClutterContainer \<Rightarrow> ClutterActorBox \<Rightarrow> gint"
where
  "available_space priv container box =
     gfloat_to_gint (primary_extent priv box
        - of_nat (((length (visible_children container) - 1) * spacing priv) mod 2 ^ 32))"

text \<open>
  What the first loop of the allocation leaves when every visible child passes its two
  checks: the requests of the visible children, in the array \<open>sizes\<close>, and the space that
  remains once their minimum sizes are taken off, in \<^verbatim>\<open>size\<close>.
\<close>

definition requested_sizes ::
  "ClutterBoxLayoutPrivate \<Rightarrow> ClutterContainer \<Rightarrow> ClutterActorBox \<Rightarrow> ClutterRequestedSize list"
where
  "requested_sizes priv container box =
     map (request_of priv box) (visible_children container)"

definition size_left ::
  "ClutterBoxLayoutPrivate \<Rightarrow> ClutterContainer \<Rightarrow> ClutterActorBox \<Rightarrow> gint"
where
  "size_left priv container box =
     foldl take_off (available_space priv container box) (requested_sizes priv container box)"

text \<open>
  The sizes of homogeneous mode as the specification words them: the floor of
  \<open>available / n\<close> for every child, and one more unit for the first
  \<open>available mod n\<close> children.
\<close>

definition spec_homogeneous_sizes :: "int \<Rightarrow> nat \<Rightarrow> int list" where
  "spec_homogeneous_sizes available n =
     map (\<lambda>k. available div int n + (if int k < available mod int n then 1 else 0)) [0..<n]"

text \<open>
  For the order of the gap distributor: the gap \<^verbatim>\<open>compare_gap\<close> computes for an index
  (in whole units, a negative difference counting as \<open>0\<close>), the order it sorts by, and
  the sorted array \<^verbatim>\<open>spreading\<close>.
\<close>

definition gap_key :: "ClutterRequestedSize list \<Rightarrow> nat \<Rightarrow> gint" where
  "gap_key sizes c =
     gfloat_to_gint (max (natural_size (sizes ! c) - minimum_size (sizes ! c)) 0)"

definition sorts_before :: "ClutterRequestedSize list \<Rightarrow> nat \<Rightarrow> nat \<Rightarrow> bool" where
  "sorts_before sizes a b \<longleftrightarrow>
     gap_key sizes a > gap_key sizes b \<or> (gap_key sizes a = gap_key sizes b \<and> a > b)"











text \<open>
  The parts of \<^verbatim>\<open>clutter_box_layout_allocate\<close> between its two loops: the children
  that expand, the array \<open>sizes\<close> the second loop reads, and the pair
  \<open>(extra, n_extra_widgets)\<close> it starts with.
\<close>

definition expand_children :: "ClutterContainer \<Rightarrow> ClutterBoxChild list" where
  "expand_children container = filter (\<lambda>c. visible c \<and> expand c) (get_children container)"

definition spread_sizes ::
  "ClutterBoxLayoutPrivate \<Rightarrow> gint \<Rightarrow> ClutterRequestedSize list \<Rightarrow> ClutterRequestedSize list" where
  "spread_sizes priv sz sizes =
     (if is_homogeneous priv then sizes
      else sizes_out (distribute_natural_allocation (max 0 sz) sizes))"

definition expand_bonus ::
  "ClutterBoxLayoutPrivate \<Rightarrow> ClutterContainer \<Rightarrow> ClutterActorBox \<Rightarrow> gint \<Rightarrow>
     ClutterRequestedSize list \<Rightarrow> gint \<times> gint" where
  "expand_bonus priv container box sz sizes =
     (if is_homogeneous priv
      then (available_space priv container box sdiv int (length (visible_children container)),
            available_space priv container box smod int (length (visible_children container)))
      else if expand_children container \<noteq> []
      then (remainder (distribute_natural_allocation (max 0 sz) sizes)
              sdiv int (length (expand_children container)),
            remainder (distribute_natural_allocation (max 0 sz) sizes)
              smod int (length (expand_children container)))
      else (0, 0))"

text \<open>
  The second loop, child by child. A child takes a part of \<open>extra\<close> when the box is
  homogeneous or the child expands; \<open>base_size\<close> is the size it has before that part
  (\<open>i\<close> is its position in the list of children, the index at which the loop reads
  \<open>sizes\<close>). \<open>share_out\<close> hands \<open>extra\<close>, and one more unit while \<open>n_extra_widgets\<close> is
  positive, to the children that take it, given as pairs of base size and flag in the
  order of the loop.
\<close>

definition takes_bonus :: "ClutterBoxLayoutPrivate \<Rightarrow> ClutterBoxChild \<Rightarrow> bool" where
  "takes_bonus priv child \<longleftrightarrow> is_homogeneous priv \<or> expand child"

definition base_size ::
  "(nat \<Rightarrow> ClutterRequestedSize) \<Rightarrow> ClutterBoxLayoutPrivate \<Rightarrow> ClutterRequestedSize list \<Rightarrow>
     nat \<Rightarrow> gint"
where
  "base_size beyond priv sizes i =
     (if is_homogeneous priv then 0
      else gfloat_to_gint (minimum_size (sizes_at beyond sizes i)))"

fun share_out :: "int \<Rightarrow> int \<Rightarrow> (int \<times> bool) list \<Rightarrow> int list" where
  "share_out extra n_extra_widgets [] = []"
| "share_out extra n_extra_widgets ((base, takes) # rest) =
     (if takes
      then (base + extra + (if 0 < n_extra_widgets then 1 else 0))
           # share_out extra (if 0 < n_extra_widgets then n_extra_widgets - 1 else n_extra_widgets)
               rest
      else base # share_out extra n_extra_widgets rest)"




text \<open>
  What the second loop hands out in all to \<open>m\<close> expanding children when it starts
  with the pair \<open>(extra, n_extra_widgets)\<close>.
\<close>

definition handed_out :: "gint \<Rightarrow> gint \<Rightarrow> nat \<Rightarrow> gint" where
  "handed_out extra n_extra_widgets m = int m * extra + min (max n_extra_widgets 0) (int m)"
section \<open>The guard of the gap distributor\<close>

text \<open>
  C8. A call of \<^verbatim>\<open>distribute_natural_allocation\<close> with a negative \<open>extra_space\<close> is
  turned away by the guard at its head: the failed precondition is reported (GLib's
  critical warning), \<open>0\<close> is returned, no element of \<open>sizes\<close> is changed and the loop
  goes through no request.
\<close>

theorem negative_extra_space_rejected:
  "extra_space < 0 \<Longrightarrow>
     distribute_natural_allocation extra_space sizes =
       \<lparr>critical = True, remainder = 0, sizes_out = sizes, processed = []\<rparr>"
  by (simp add: distribute_natural_allocation_def)

theorem negative_extra_space_rejected_witness:
  "(- 3 :: int) < 0 \<and>
   distribute_natural_allocation (- 3)
       [\<lparr>minimum_size = 10, natural_size = 25\<rparr>, \<lparr>minimum_size = 4, natural_size = 4\<rparr>] =
     \<lparr>critical = True, remainder = 0,
      sizes_out = [\<lparr>minimum_size = 10, natural_size = 25\<rparr>, \<lparr>minimum_size = 4, natural_size = 4\<rparr>],
      processed = []\<rparr>"
  using negative_extra_space_rejected
    [of "- 3" "[\<lparr>minimum_size = 10, natural_size = 25\<rparr>, \<lparr>minimum_size = 4, natural_size = 4\<rparr>]"]
  by simp
section \<open>The first loop of the allocation\<close>

lemma count_expand_loop_eq:
  "count_expand_loop cs (v, e) =
     (v + int (length (filter visible cs)),
      e + int (length (filter (\<lambda>c. visible c \<and> expand c) cs)))"
  by (induction cs arbitrary: v e) auto

lemma count_expand_children_eq:
  "count_expand_children container =
     (int (length (filter visible (get_children container))),
      int (length (filter (\<lambda>c. visible c \<and> expand c) (get_children container))))"
  by (simp add: count_expand_children_def count_expand_loop_eq)

lemma request_loop_step:
  "visible child \<Longrightarrow>
   request_loop priv box (child # children) sz sizes =
     (if minimum_size (request_of priv box child) < 0 then Inl G_ERROR_MINIMUM_BELOW_ZERO
      else if natural_size (request_of priv box child) < minimum_size (request_of priv box child)
      then Inl G_ERROR_NATURAL_BELOW_MINIMUM
      else request_loop priv box children (take_off sz (request_of priv box child))
             (sizes @ [request_of priv box child]))"
  by (simp add: request_of_def take_off_def split: prod.splits)

lemma request_loop_skip:
  "\<not> visible child \<Longrightarrow>
   request_loop priv box (child # children) sz sizes = request_loop priv box children sz sizes"
  by simp

lemma request_loop_fault_kind:
  "request_loop priv box children sz sizes = Inl fault \<Longrightarrow>
     fault = G_ERROR_MINIMUM_BELOW_ZERO \<or> fault = G_ERROR_NATURAL_BELOW_MINIMUM"
proof (induction children arbitrary: sz sizes)
  case Nil
  then show ?case by simp
next
  case (Cons child children)
  show ?case
  proof (cases "visible child")
    case True
    with Cons show ?thesis
      by (auto simp: request_loop_step simp del: request_loop.simps split: if_splits)
  next
    case False
    with Cons show ?thesis by (simp del: request_loop.simps add: request_loop_skip)
  qed
qed

lemma request_loop_inconsistent:
  "child \<in> set children \<Longrightarrow> visible child \<Longrightarrow> \<not> consistent (request_of priv box child) \<Longrightarrow>
     \<exists>fault. request_loop priv box children sz sizes = Inl fault"
proof (induction children arbitrary: sz sizes)
  case Nil
  then show ?case by simp
next
  case (Cons c children)
  show ?case
  proof (cases "visible c")
    case True
    show ?thesis
    proof (cases "consistent (request_of priv box c)")
      case ok: True
      then have "c \<noteq> child" using Cons.prems by auto
      then have "child \<in> set children" using Cons.prems by auto
      from Cons.IH [OF this Cons.prems(2,3)] ok True show ?thesis
        by (simp del: request_loop.simps add: request_loop_step consistent_def)
    next
      case False
      with True show ?thesis
        by (auto simp del: request_loop.simps simp add: request_loop_step consistent_def)
    qed
  next
    case False
    then have "child \<in> set children" using Cons.prems by auto
    from Cons.IH [OF this Cons.prems(2,3)] False show ?thesis
      by (simp del: request_loop.simps add: request_loop_skip)
  qed
qed

lemma request_loop_consistent:
  "\<forall>child \<in> set children. visible child \<longrightarrow> consistent (request_of priv box child) \<Longrightarrow>
     request_loop priv box children sz sizes =
       Inr (foldl take_off sz (map (request_of priv box) (filter visible children)),
            sizes @ map (request_of priv box) (filter visible children))"
proof (induction children arbitrary: sz sizes)
  case Nil
  then show ?case by simp
next
  case (Cons c children)
  show ?case
  proof (cases "visible c")
    case True
    with Cons show ?thesis
      by (simp del: request_loop.simps add: request_loop_step consistent_def)
  next
    case False
    with Cons show ?thesis by (simp del: request_loop.simps add: request_loop_skip)
  qed
qed

text \<open>
  C9. When a visible child answers the request of the allocation with a minimum below
  zero or a natural size below its minimum, the pass ends in one of the two \<^verbatim>\<open>g_error\<close>
  calls, which abort: the value is not clamped and \<^verbatim>\<open>allocate_box_child\<close> is called
  for no child.
\<close>

theorem inconsistent_child_size_is_fatal:
  assumes "child \<in> set (get_children container)" and "visible child"
    and "minimum_size (request_of priv box child) < 0
         \<or> natural_size (request_of priv box child) < minimum_size (request_of priv box child)"
  shows "clutter_box_layout_allocate beyond priv container box = Inl G_ERROR_MINIMUM_BELOW_ZERO
         \<or> clutter_box_layout_allocate beyond priv container box = Inl G_ERROR_NATURAL_BELOW_MINIMUM"
proof -
  have "filter visible (get_children container) \<noteq> []"
    using assms(1,2) by (auto simp: filter_empty_conv)
  then have nvis: "\<not> int (length (filter visible (get_children container))) \<le> 0"
    by simp
  have "\<not> consistent (request_of priv box child)"
    using assms(3) by (auto simp: consistent_def)
  from request_loop_inconsistent [OF assms(1,2) this]
  obtain fault where f: "request_loop priv box (get_children container)
      (gfloat_to_gint (primary_extent priv box
          - of_nat (guint_of ((int (length (filter visible (get_children container))) - 1)
                                * int (spacing priv))))) [] = Inl fault"
    by blast
  from request_loop_fault_kind [OF f]
  have "fault = G_ERROR_MINIMUM_BELOW_ZERO \<or> fault = G_ERROR_NATURAL_BELOW_MINIMUM" .
  moreover have "clutter_box_layout_allocate beyond priv container box = Inl fault"
    using nvis f by (simp add: clutter_box_layout_allocate_def count_expand_children_eq Let_def)
  ultimately show ?thesis by auto
qed

theorem inconsistent_child_size_is_fatal_witness:
  "clutter_box_layout_allocate zeroed
     \<lparr>spacing = 2, is_vertical = False, is_pack_start = True, is_homogeneous = False\<rparr>
     \<lparr>get_children =
        [\<lparr>visible = True, preferred_width = (\<lambda>_. (10, 10)), preferred_height = (\<lambda>_. (5, 5)),
          x_fill = True, y_fill = True, expand = False\<rparr>,
         \<lparr>visible = True, preferred_width = (\<lambda>_. (8, 3)), preferred_height = (\<lambda>_. (5, 5)),
          x_fill = True, y_fill = True, expand = False\<rparr>],
      get_text_direction = CLUTTER_TEXT_DIRECTION_LTR\<rparr>
     \<lparr>x1 = 0, y1 = 0, x2 = 100, y2 = 20\<rparr> = Inl G_ERROR_MINIMUM_BELOW_ZERO
   \<or> clutter_box_layout_allocate zeroed
     \<lparr>spacing = 2, is_vertical = False, is_pack_start = True, is_homogeneous = False\<rparr>
     \<lparr>get_children =
        [\<lparr>visible = True, preferred_width = (\<lambda>_. (10, 10)), preferred_height = (\<lambda>_. (5, 5)),
          x_fill = True, y_fill = True, expand = False\<rparr>,
         \<lparr>visible = True, preferred_width = (\<lambda>_. (8, 3)), preferred_height = (\<lambda>_. (5, 5)),
          x_fill = True, y_fill = True, expand = False\<rparr>],
      get_text_direction = CLUTTER_TEXT_DIRECTION_LTR\<rparr>
     \<lparr>x1 = 0, y1 = 0, x2 = 100, y2 = 20\<rparr> = Inl G_ERROR_NATURAL_BELOW_MINIMUM"
  by (rule inconsistent_child_size_is_fatal
        [of "\<lparr>visible = True, preferred_width = (\<lambda>_. (8, 3)), preferred_height = (\<lambda>_. (5, 5)),
          x_fill = True, y_fill = True, expand = False\<rparr>"])
     (simp_all add: request_of_def)
section \<open>The pass as a whole\<close>

lemma gint_of_in_gint: "in_gint k \<Longrightarrow> gint_of k = k"
  by (simp add: gint_of_def in_gint_def)

lemma guint_of_product:
  assumes "0 < n"
  shows "guint_of ((int n - 1) * int s) = ((n - 1) * s) mod 2 ^ 32"
proof -
  have "(int n - 1) * int s = int ((n - 1) * s)"
    using assms by (simp add: of_nat_diff)
  then have "guint_of ((int n - 1) * int s) = nat (int ((n - 1) * s) mod 2 ^ 32)"
    by (simp only: guint_of_def)
  also have "\<dots> = nat (int (((n - 1) * s) mod 2 ^ 32))"
    by (simp add: zmod_int)
  finally show ?thesis by simp
qed

lemma in_set_rev_zip_upt:
  "(i, child) \<in> set (rev (zip [0..<length children] children))
     \<longleftrightarrow> i < length children \<and> child = children ! i"
proof
  assume "(i, child) \<in> set (rev (zip [0..<length children] children))"
  then show "i < length children \<and> child = children ! i"
    by (auto simp: in_set_zip)
next
  assume a: "i < length children \<and> child = children ! i"
  then have "(i, child) = zip [0..<length children] children ! i" by simp
  moreover have "i < length (zip [0..<length children] children)" using a by simp
  ultimately have "(i, child) \<in> set (zip [0..<length children] children)"
    by (metis nth_mem)
  then show "(i, child) \<in> set (rev (zip [0..<length children] children))" by simp
qed

lemma filter_visible_rev_zip:
  "map fst (filter (\<lambda>p. visible (snd p)) (rev (zip [0..<length cs] cs)))
     = rev (filter (\<lambda>i. visible (cs ! i)) [0..<length cs])"
proof -
  have "filter (\<lambda>p. visible (snd p)) (zip [0..<length cs] cs)
          = filter (\<lambda>p. visible (cs ! fst p)) (zip [0..<length cs] cs)"
    by (rule filter_cong) (auto simp: in_set_zip)
  moreover have "map fst (filter (\<lambda>p. visible (cs ! fst p)) (zip [0..<length cs] cs))
          = filter (\<lambda>i. visible (cs ! i)) [0..<length cs]"
  proof -
    have "filter (\<lambda>i. visible (cs ! i)) (map fst (zip [0..<length cs] cs))
            = map fst (filter ((\<lambda>i. visible (cs ! i)) \<circ> fst) (zip [0..<length cs] cs))"
      by (rule filter_map)
    then show ?thesis by (simp add: comp_def)
  qed
  ultimately have "rev (map fst (filter (\<lambda>p. visible (snd p)) (zip [0..<length cs] cs)))
          = rev (filter (\<lambda>i. visible (cs ! i)) [0..<length cs])"
    by simp
  then show ?thesis
    by (simp only: rev_filter rev_map)
qed

lemma length_filter_visible_zip:
  "length (filter (\<lambda>p. visible (snd p)) (rev (zip [0..<length cs] cs)))
     = length (filter visible cs)"
proof -
  have "filter visible (map snd (zip [0..<length cs] cs))
          = map snd (filter (visible \<circ> snd) (zip [0..<length cs] cs))"
    by (rule filter_map)
  then have "filter visible cs
          = map snd (filter (\<lambda>p. visible (snd p)) (zip [0..<length cs] cs))"
    by (simp add: comp_def)
  then have "length (filter (\<lambda>p. visible (snd p)) (zip [0..<length cs] cs))
          = length (filter visible cs)"
    by (metis length_map)
  then show ?thesis by (simp only: rev_filter [symmetric] length_rev)
qed

lemma allocate_loop_hidden:
  "\<not> visible child \<Longrightarrow>
   allocate_loop beyond priv box is_rtl sizes extra ((i, child) # children)
       child_allocation n_extra_widgets x y =
     allocate_loop beyond priv box is_rtl sizes extra children
       child_allocation n_extra_widgets x y"
  by simp

lemma allocate_loop_visible:
  "visible child \<Longrightarrow>
   allocate_loop beyond priv box is_rtl sizes extra ((i, child) # children)
       child_allocation n_extra_widgets x y =
     \<lparr>call_child = i,
      call_child_size = fst (assign_size beyond priv sizes extra i child n_extra_widgets),
      call_box = fst (assign_position beyond priv box is_rtl sizes i child
                        (fst (assign_size beyond priv sizes extra i child n_extra_widgets))
                        child_allocation x y)\<rparr>
     # allocate_loop beyond priv box is_rtl sizes extra children
         (fst (assign_position beyond priv box is_rtl sizes i child
                 (fst (assign_size beyond priv sizes extra i child n_extra_widgets))
                 child_allocation x y))
         (snd (assign_size beyond priv sizes extra i child n_extra_widgets))
         (fst (snd (assign_position beyond priv box is_rtl sizes i child
                 (fst (assign_size beyond priv sizes extra i child n_extra_widgets))
                 child_allocation x y)))
         (snd (snd (assign_position beyond priv box is_rtl sizes i child
                 (fst (assign_size beyond priv sizes extra i child n_extra_widgets))
                 child_allocation x y)))"
  by (simp add: Let_def split: prod.splits)

lemma allocate_loop_children:
  "map call_child (allocate_loop beyond priv box is_rtl sizes extra children
                     child_allocation n_extra_widgets x y)
     = map fst (filter (\<lambda>p. visible (snd p)) children)"
proof (induction children arbitrary: child_allocation n_extra_widgets x y)
  case Nil
  then show ?case by simp
next
  case (Cons p children)
  obtain i child where p: "p = (i, child)" by (cases p)
  show ?case
  proof (cases "visible child")
    case False
    with Cons p show ?thesis by (simp del: allocate_loop.simps add: allocate_loop_hidden)
  next
    case True
    with Cons p show ?thesis by (simp del: allocate_loop.simps add: allocate_loop_visible)
  qed
qed

lemma allocate_unfold:
  "clutter_box_layout_allocate beyond priv container box =
     (if visible_children container = [] then Inr []
      else case request_loop priv box (get_children container)
                  (available_space priv container box) [] of
             Inl fault \<Rightarrow> Inl fault
           | Inr (sz, sizes) \<Rightarrow>
               Inr (allocate_loop beyond priv box
                 (\<not> is_vertical priv \<and> get_text_direction container = CLUTTER_TEXT_DIRECTION_RTL)
                 (spread_sizes priv sz sizes)
                 (fst (expand_bonus priv container box sz sizes))
                 (rev (zip [0..<length (get_children container)] (get_children container)))
                 (if is_vertical priv
                  then \<lparr>x1 = 0, y1 = 0, x2 = max 1 (x2 box - x1 box), y2 = 0\<rparr>
                  else \<lparr>x1 = 0, y1 = 0, x2 = 0, y2 = max 1 (y2 box - y1 box)\<rparr>)
                 (snd (expand_bonus priv container box sz sizes))
                 (if is_vertical priv \<or> is_pack_start priv then 0
                  else gfloat_to_gint (0 + x2 box - x1 box))
                 (if is_vertical priv \<and> \<not> is_pack_start priv
                  then gfloat_to_gint (y2 box - y1 box) else 0)))"
proof (cases "visible_children container = []")
  case True
  then show ?thesis
    by (simp add: clutter_box_layout_allocate_def count_expand_children_eq visible_children_def)
next
  case False
  then have pos: "0 < length (filter visible (get_children container))"
    by (simp add: visible_children_def)
  have prod: "guint_of ((int (length (filter visible (get_children container))) - 1)
                 * int (spacing priv))
            = ((length (filter visible (get_children container)) - 1) * spacing priv) mod 2 ^ 32"
    by (rule guint_of_product [OF pos])
  show ?thesis
    using False pos
    by (auto simp: clutter_box_layout_allocate_def count_expand_children_eq Let_def prod
          visible_children_def available_space_def expand_children_def spread_sizes_def
          expand_bonus_def
        split: sum.splits prod.splits)
qed

lemma allocate_consistent:
  assumes "\<forall>child \<in> set (visible_children container). consistent (request_of priv box child)"
  shows "clutter_box_layout_allocate beyond priv container box =
     Inr (allocate_loop beyond priv box
            (\<not> is_vertical priv \<and> get_text_direction container = CLUTTER_TEXT_DIRECTION_RTL)
            (spread_sizes priv (size_left priv container box) (requested_sizes priv container box))
            (fst (expand_bonus priv container box (size_left priv container box)
                    (requested_sizes priv container box)))
            (rev (zip [0..<length (get_children container)] (get_children container)))
            (if is_vertical priv
             then \<lparr>x1 = 0, y1 = 0, x2 = max 1 (x2 box - x1 box), y2 = 0\<rparr>
             else \<lparr>x1 = 0, y1 = 0, x2 = 0, y2 = max 1 (y2 box - y1 box)\<rparr>)
            (snd (expand_bonus priv container box (size_left priv container box)
                    (requested_sizes priv container box)))
            (if is_vertical priv \<or> is_pack_start priv then 0
             else gfloat_to_gint (0 + x2 box - x1 box))
            (if is_vertical priv \<and> \<not> is_pack_start priv
             then gfloat_to_gint (y2 box - y1 box) else 0))"
proof (cases "visible_children container = []")
  case True
  then have "filter (\<lambda>p. visible (snd p))
               (rev (zip [0..<length (get_children container)] (get_children container))) = []"
    using length_filter_visible_zip [of "get_children container"]
    by (simp add: visible_children_def)
  then have "\<And>sizes extra ca n x y.
      map call_child (allocate_loop beyond priv box
        (\<not> is_vertical priv \<and> get_text_direction container = CLUTTER_TEXT_DIRECTION_RTL)
        sizes extra
        (rev (zip [0..<length (get_children container)] (get_children container))) ca n x y) = []"
    by (simp only: allocate_loop_children list.map)
  then show ?thesis using True by (simp add: allocate_unfold)
next
  case False
  have "\<forall>child \<in> set (get_children container).
          visible child \<longrightarrow> consistent (request_of priv box child)"
    using assms by (simp add: visible_children_def)
  from request_loop_consistent [OF this, of "available_space priv container box" "[]"]
  have "request_loop priv box (get_children container) (available_space priv container box) []
          = Inr (size_left priv container box, requested_sizes priv container box)"
    by (simp add: visible_children_def size_left_def requested_sizes_def)
  with False show ?thesis by (simp add: allocate_unfold)
qed

section \<open>Rectangles handed to the children\<close>

lemma mirror_rtl_simps:
  "x1 (mirror_rtl box b) = x2 box - x1 box - x1 b - (x2 b - x1 b)"
  "x2 (mirror_rtl box b) = x2 box - x1 box - x1 b"
  "y1 (mirror_rtl box b) = y1 b"
  "y2 (mirror_rtl box b) = y2 b"
  by (simp_all add: mirror_rtl_def Let_def)

lemma assign_position_spans:
  "cross_span priv (fst (assign_position beyond priv box is_rtl sizes i child child_size
                           child_allocation x y))
     = cross_span priv child_allocation"
  "fill_primary priv child \<Longrightarrow>
     primary_span priv (fst (assign_position beyond priv box is_rtl sizes i child child_size
                               child_allocation x y))
       = max 1 (of_int child_size)"
  by (auto simp: assign_position_def cross_span_def primary_span_def fill_primary_def Let_def
        mirror_rtl_simps split: if_splits prod.splits)

lemma allocate_loop_spans:
  assumes "call \<in> set (allocate_loop beyond priv box is_rtl sizes extra children
                          child_allocation n_extra_widgets x y)"
  shows "cross_span priv (call_box call) = cross_span priv child_allocation
         \<and> (\<exists>child. (call_child call, child) \<in> set children \<and> visible child
              \<and> (fill_primary priv child \<longrightarrow>
                    primary_span priv (call_box call) = max 1 (of_int (call_child_size call))))"
  using assms
proof (induction children arbitrary: child_allocation n_extra_widgets x y)
  case Nil
  then show ?case by simp
next
  case (Cons p children)
  obtain i child where p: "p = (i, child)" by (cases p)
  show ?case
  proof (cases "visible child")
    case False
    with Cons.prems p have
      "call \<in> set (allocate_loop beyond priv box is_rtl sizes extra children
                     child_allocation n_extra_widgets x y)"
      by simp
    from Cons.IH [OF this] show ?thesis by auto
  next
    case True
    let ?size = "fst (assign_size beyond priv sizes extra i child n_extra_widgets)"
    let ?pos = "assign_position beyond priv box is_rtl sizes i child ?size child_allocation x y"
    let ?rest = "allocate_loop beyond priv box is_rtl sizes extra children (fst ?pos)
                   (snd (assign_size beyond priv sizes extra i child n_extra_widgets))
                   (fst (snd ?pos)) (snd (snd ?pos))"
    from Cons.prems p True have mem:
      "call = \<lparr>call_child = i, call_child_size = ?size, call_box = fst ?pos\<rparr>
       \<or> call \<in> set ?rest"
      by (simp del: allocate_loop.simps add: allocate_loop_visible)
    have spans: "cross_span priv (fst ?pos) = cross_span priv child_allocation"
      "fill_primary priv child \<Longrightarrow> primary_span priv (fst ?pos) = max 1 (of_int ?size)"
      by (rule assign_position_spans)+
    show ?thesis
    proof (cases "call \<in> set ?rest")
      case True
      from Cons.IH [OF True] spans(1) show ?thesis by auto
    next
      case False
      with mem
      have "call = \<lparr>call_child = i, call_child_size = ?size, call_box = fst ?pos\<rparr>"
        by simp
      with spans p \<open>visible child\<close> show ?thesis by auto
    qed
  qed
qed

text \<open>
  C10. When the visible children answer with consistent requests (otherwise the pass
  aborts in its first loop), the pass calls \<^verbatim>\<open>allocate_box_child\<close> once for every
  visible child, from the last one to the first, whatever the stack holds behind the
  array \<open>sizes\<close>. In every one of these calls the rectangle spans, across the axis of the
  box, the larger of \<open>1\<close> and the extent of the box there; and for a child whose fill
  flag of the axis of the box is set it spans, along that axis, the larger of \<open>1\<close> and
  \<open>child_size\<close>, also when \<open>child_size\<close> is zero or negative.
\<close>

theorem fill_span_at_least_one:
  assumes "\<forall>child \<in> set (visible_children container). consistent (request_of priv box child)"
  shows "\<exists>calls. clutter_box_layout_allocate beyond priv container box = Inr calls
           \<and> map call_child calls = rev (visible_positions container)
           \<and> (\<forall>call \<in> set calls.
                 (fill_primary priv (get_children container ! call_child call) \<longrightarrow>
                    primary_span priv (call_box call) = max 1 (of_int (call_child_size call)))
                 \<and> cross_span priv (call_box call) = max 1 (cross_span priv box))"
proof -
  let ?items = "rev (zip [0..<length (get_children container)] (get_children container))"
  let ?ca = "if is_vertical priv
             then \<lparr>x1 = 0, y1 = 0, x2 = max 1 (x2 box - x1 box), y2 = 0\<rparr>
             else \<lparr>x1 = 0, y1 = 0, x2 = 0, y2 = max 1 (y2 box - y1 box)\<rparr>"
  from allocate_consistent [OF assms, of beyond] obtain is_rtl sizes extra n_extra_widgets x y
    where run: "clutter_box_layout_allocate beyond priv container box =
                  Inr (allocate_loop beyond priv box is_rtl sizes extra ?items ?ca
                         n_extra_widgets x y)"
    by blast
  let ?calls = "allocate_loop beyond priv box is_rtl sizes extra ?items ?ca n_extra_widgets x y"
  have children: "map call_child ?calls = rev (visible_positions container)"
    by (simp only: allocate_loop_children filter_visible_rev_zip visible_positions_def)
  have ca: "cross_span priv ?ca = max 1 (cross_span priv box)"
    by (simp add: cross_span_def)
  have "(fill_primary priv (get_children container ! call_child call) \<longrightarrow>
            primary_span priv (call_box call) = max 1 (of_int (call_child_size call)))
        \<and> cross_span priv (call_box call) = max 1 (cross_span priv box)"
    if "call \<in> set ?calls" for call
  proof -
    from allocate_loop_spans [OF that] obtain child where
      cross: "cross_span priv (call_box call) = cross_span priv ?ca"
      and mem: "(call_child call, child) \<in> set ?items"
      and fill: "fill_primary priv child \<longrightarrow>
                   primary_span priv (call_box call) = max 1 (of_int (call_child_size call))"
      by blast
    from mem have "child = get_children container ! call_child call"
      by (simp only: in_set_rev_zip_upt)
    with cross fill ca show ?thesis by simp
  qed
  with run children show ?thesis by blast
qed

theorem fill_span_at_least_one_witness:
  "list_all (\<lambda>child. consistent
        (request_of \<lparr>spacing = 3, is_vertical = False, is_pack_start = False,
                      is_homogeneous = True\<rparr> (box_of_size 3 20) child))
     (visible_children
        \<lparr>get_children = [filling_child 10 10 False, filling_child 8 13 False],
         get_text_direction = CLUTTER_TEXT_DIRECTION_LTR\<rparr>)
   \<and> (\<exists>calls.
         clutter_box_layout_allocate zeroed
           \<lparr>spacing = 3, is_vertical = False, is_pack_start = False, is_homogeneous = True\<rparr>
           \<lparr>get_children = [filling_child 10 10 False, filling_child 8 13 False],
            get_text_direction = CLUTTER_TEXT_DIRECTION_LTR\<rparr>
           (box_of_size 3 20) = Inr calls
         \<and> map call_child calls = [1, 0]
         \<and> map call_child_size calls = [0, 0]
         \<and> map (\<lambda>call. primary_span
                  \<lparr>spacing = 3, is_vertical = False, is_pack_start = False,
                    is_homogeneous = True\<rparr> (call_box call)) calls = [1, 1]
         \<and> map (\<lambda>call. cross_span
                  \<lparr>spacing = 3, is_vertical = False, is_pack_start = False,
                    is_homogeneous = True\<rparr> (call_box call)) calls = [20, 20])"
proof -
  let ?priv = "\<lparr>spacing = 3, is_vertical = False, is_pack_start = False,
                 is_homogeneous = True\<rparr>"
  let ?container = "\<lparr>get_children = [filling_child 10 10 False, filling_child 8 13 False],
                      get_text_direction = CLUTTER_TEXT_DIRECTION_LTR\<rparr>"
  have ok: "\<forall>child \<in> set (visible_children ?container).
              consistent (request_of ?priv (box_of_size 3 20) child)"
    by (simp add: visible_children_def filling_child_def request_of_def consistent_def)
  have sizes: "map call_child_size calls = [0, 0]"
    if "clutter_box_layout_allocate zeroed ?priv ?container (box_of_size 3 20) = Inr calls"
    for calls
    using that
    by (auto simp: clutter_box_layout_allocate_def count_expand_children_def Let_def
          filling_child_def box_of_size_def gfloat_to_gint_def primary_extent_def guint_of_def
          assign_size_def assign_position_def upt_rec
          signed_divide_int_def signed_modulo_int_def)
  have positions: "rev (visible_positions ?container) = [1, 0]"
    by (simp add: visible_positions_def filling_child_def upt_rec)
  from fill_span_at_least_one [OF ok, of zeroed] obtain calls where
    run: "clutter_box_layout_allocate zeroed ?priv ?container (box_of_size 3 20) = Inr calls"
    and children: "map call_child calls = rev (visible_positions ?container)"
    and spans: "\<forall>call \<in> set calls.
                 (fill_primary ?priv (get_children ?container ! call_child call) \<longrightarrow>
                    primary_span ?priv (call_box call) = max 1 (of_int (call_child_size call)))
                 \<and> cross_span ?priv (call_box call) = max 1 (cross_span ?priv (box_of_size 3 20))"
    by blast
  from children positions obtain a b where ab: "calls = [a, b]"
    and ia: "call_child a = 1" and ib: "call_child b = 0"
    by (auto simp: map_eq_Cons_conv)
  from sizes [OF run] ab have sa: "call_child_size a = 0" and sb: "call_child_size b = 0"
    by simp_all
  from spans ab ia ib sa sb
  have "primary_span ?priv (call_box a) = 1" and "primary_span ?priv (call_box b) = 1"
    and "cross_span ?priv (call_box a) = 20" and "cross_span ?priv (call_box b) = 20"
    by (simp_all add: fill_primary_def filling_child_def cross_span_def box_of_size_def)
  with run ab ia ib sa sb ok show ?thesis
    by (simp add: list_all_iff)
qed

section \<open>Mirroring for right-to-left text\<close>

lemma mirror_rtl_involution: "mirror_rtl box (mirror_rtl box b) = b"
  by (rule ClutterActorBox.equality) (simp_all add: mirror_rtl_simps)

lemma assign_position_rtl:
  assumes "\<not> is_vertical priv" and "y1 ca = y1 ca'" and "y2 ca = y2 ca'"
  shows "assign_position beyond priv box True sizes i child child_size ca x y =
           (\<lambda>(b, new_x, new_y). (mirror_rtl box b, new_x, new_y))
             (assign_position beyond priv box False sizes i child child_size ca' x y)"
proof -
  have eq: "ca\<lparr>x1 := a, x2 := b\<rparr> = ca'\<lparr>x1 := a, x2 := b\<rparr>" for a b
    using assms(2,3) by (intro ClutterActorBox.equality) simp_all
  show ?thesis
    using assms(1) by (simp add: assign_position_def eq Let_def split: prod.splits)
qed

lemma allocate_loop_rtl:
  assumes "\<not> is_vertical priv" and "y1 ca = y1 ca'" and "y2 ca = y2 ca'"
  shows "allocate_loop beyond priv box True sizes extra children ca n_extra_widgets x y =
           map (mirror_call box)
             (allocate_loop beyond priv box False sizes extra children ca' n_extra_widgets x y)"
  using assms(2,3)
proof (induction children arbitrary: ca ca' n_extra_widgets x y)
  case Nil
  then show ?case by simp
next
  case (Cons p children)
  obtain i child where p: "p = (i, child)" by (cases p)
  show ?case
  proof (cases "visible child")
    case False
    with Cons p show ?thesis by simp
  next
    case True
    obtain child_size n_left where
      r: "assign_size beyond priv sizes extra i child n_extra_widgets = (child_size, n_left)"
      by (cases "assign_size beyond priv sizes extra i child n_extra_widgets")
    obtain b new_x new_y where
      q: "assign_position beyond priv box False sizes i child child_size ca' x y
            = (b, new_x, new_y)"
      by (cases "assign_position beyond priv box False sizes i child child_size ca' x y")
    from assign_position_rtl [OF assms(1) Cons.prems, of beyond box sizes i child child_size x y] q
    have rtl: "assign_position beyond priv box True sizes i child child_size ca x y
                 = (mirror_rtl box b, new_x, new_y)"
      by simp
    have "allocate_loop beyond priv box True sizes extra children (mirror_rtl box b)
            n_left new_x new_y
          = map (mirror_call box)
              (allocate_loop beyond priv box False sizes extra children b n_left new_x new_y)"
      by (rule Cons.IH) (simp_all add: mirror_rtl_simps)
    with True p r q rtl show ?thesis
      by (simp add: mirror_call_def)
  qed
qed

text \<open>
  C7. On the horizontal axis with right-to-left text, the allocation is the left-to-right
  allocation with every rectangle mirrored as its last step: the new left edge is the
  width of the box minus the old left edge minus the width of the span, the new right
  edge is the new left edge plus that width. The mirroring keeps the width of the span,
  and doing it twice gives the rectangle back.
\<close>

theorem rtl_mirroring:
  assumes "\<not> is_vertical priv"
    and "get_text_direction container = CLUTTER_TEXT_DIRECTION_RTL"
  shows "clutter_box_layout_allocate beyond priv container box =
           map_sum id (map (mirror_call box))
             (clutter_box_layout_allocate beyond priv
                (container\<lparr>get_text_direction := CLUTTER_TEXT_DIRECTION_LTR\<rparr>) box)
         \<and> x1 (mirror_rtl box b) = (x2 box - x1 box) - x1 b - (x2 b - x1 b)
         \<and> x2 (mirror_rtl box b) = x1 (mirror_rtl box b) + (x2 b - x1 b)
         \<and> x2 (mirror_rtl box b) - x1 (mirror_rtl box b) = x2 b - x1 b
         \<and> mirror_rtl box (mirror_rtl box b) = b"
proof -
  have "clutter_box_layout_allocate beyond priv container box =
           map_sum id (map (mirror_call box))
             (clutter_box_layout_allocate beyond priv
                (container\<lparr>get_text_direction := CLUTTER_TEXT_DIRECTION_LTR\<rparr>) box)"
    using assms
    by (simp add: clutter_box_layout_allocate_def count_expand_children_def Let_def
          allocate_loop_rtl [OF assms(1) refl refl]
        split: prod.splits sum.splits)
  then show ?thesis
    by (simp add: mirror_rtl_simps mirror_rtl_involution)
qed

theorem rtl_mirroring_witness:
  "clutter_box_layout_allocate zeroed
      \<lparr>spacing = 5, is_vertical = False, is_pack_start = True, is_homogeneous = False\<rparr>
      \<lparr>get_children = [filling_child 10 10 False, filling_child 20 20 False],
       get_text_direction = CLUTTER_TEXT_DIRECTION_RTL\<rparr>
      (box_of_size 100 20)
    = Inr [\<lparr>call_child = 1, call_child_size = 20,
            call_box = \<lparr>x1 = 80, y1 = 0, x2 = 100, y2 = 20\<rparr>\<rparr>,
           \<lparr>call_child = 0, call_child_size = 10,
            call_box = \<lparr>x1 = 65, y1 = 0, x2 = 75, y2 = 20\<rparr>\<rparr>]
   \<and> mirror_rtl (box_of_size 100 20) \<lparr>x1 = 25, y1 = 0, x2 = 35, y2 = 20\<rparr>
       = \<lparr>x1 = 65, y1 = 0, x2 = 75, y2 = 20\<rparr>
   \<and> mirror_rtl (box_of_size 100 20)
        (mirror_rtl (box_of_size 100 20) \<lparr>x1 = 25, y1 = 0, x2 = 35, y2 = 20\<rparr>)
       = \<lparr>x1 = 25, y1 = 0, x2 = 35, y2 = 20\<rparr>"
proof -
  have ltr: "clutter_box_layout_allocate zeroed
      \<lparr>spacing = 5, is_vertical = False, is_pack_start = True, is_homogeneous = False\<rparr>
      \<lparr>get_children = [filling_child 10 10 False, filling_child 20 20 False],
       get_text_direction = CLUTTER_TEXT_DIRECTION_LTR\<rparr>
      (box_of_size 100 20)
    = Inr [\<lparr>call_child = 1, call_child_size = 20,
            call_box = \<lparr>x1 = 0, y1 = 0, x2 = 20, y2 = 20\<rparr>\<rparr>,
           \<lparr>call_child = 0, call_child_size = 10,
            call_box = \<lparr>x1 = 25, y1 = 0, x2 = 35, y2 = 20\<rparr>\<rparr>]"
    by (simp add: clutter_box_layout_allocate_def count_expand_children_def Let_def
          filling_child_def box_of_size_def gfloat_to_gint_def primary_extent_def
          assign_size_def assign_position_def upt_rec sizes_at_def guint_of_def gint_of_def
          distribute_natural_allocation_def g_qsort_with_data_def compare_gap_def
          signed_divide_int_def signed_modulo_int_def)
  show ?thesis
    using rtl_mirroring
      [where priv = "\<lparr>spacing = 5, is_vertical = False, is_pack_start = True,
                       is_homogeneous = False\<rparr>"
         and container = "\<lparr>get_children = [filling_child 10 10 False, filling_child 20 20 False],
                            get_text_direction = CLUTTER_TEXT_DIRECTION_RTL\<rparr>"
         and beyond = zeroed and box = "box_of_size 100 20"
         and b = "\<lparr>x1 = 25, y1 = 0, x2 = 35, y2 = 20\<rparr>"]
    by (simp add: ltr mirror_call_def) (simp add: mirror_rtl_def box_of_size_def)
qed
section \<open>The order of the gap distributor\<close>

lemma compare_gap_neg: "compare_gap sizes a b < 0 \<longleftrightarrow> sorts_before sizes a b"
  by (auto simp: compare_gap_def sorts_before_def gap_key_def Let_def)













section \<open>Preferred size of the box: sums and maxima\<close>

lemma Max_insert_max:
  fixes a m :: rat
  assumes "finite S"
  shows "Max (insert (max a m) S) = Max (insert m (insert a S))"
proof (cases "S = {}")
  case True
  then show ?thesis by (simp add: max.commute)
next
  case False
  with assms show ?thesis by (simp add: max.assoc max.commute)
qed

lemma preferred_width_loop_sum:
  "\<not> is_vertical priv \<Longrightarrow>
   preferred_width_loop priv for_height l (n, m, t) =
     (n + int (length (filter visible l)),
      m + sum_list (map (\<lambda>c. fst (preferred_width c for_height)) (filter visible l)),
      t + sum_list (map (\<lambda>c. snd (preferred_width c for_height)) (filter visible l)))"
  by (induction l arbitrary: n m t) (auto split: prod.splits)

lemma preferred_width_loop_max:
  "is_vertical priv \<Longrightarrow>
   preferred_width_loop priv for_height l (n, m, t) =
     (n + int (length (filter visible l)),
      Max (insert m (set (map (\<lambda>c. fst (preferred_width c (- 1))) (filter visible l)))),
      Max (insert t (set (map (\<lambda>c. snd (preferred_width c (- 1))) (filter visible l)))))"
proof (induction l arbitrary: n m t)
  case Nil
  then show ?case by simp
next
  case (Cons c l)
  then show ?case
    by (auto split: prod.splits simp: Max_insert_max)
qed

lemma preferred_height_loop_sum:
  "is_vertical priv \<Longrightarrow>
   preferred_height_loop priv for_width l (n, m, t) =
     (n + int (length (filter visible l)),
      m + sum_list (map (\<lambda>c. fst (preferred_height c for_width)) (filter visible l)),
      t + sum_list (map (\<lambda>c. snd (preferred_height c for_width)) (filter visible l)))"
  by (induction l arbitrary: n m t) (auto split: prod.splits)

lemma preferred_height_loop_max:
  "\<not> is_vertical priv \<Longrightarrow>
   preferred_height_loop priv for_width l (n, m, t) =
     (n + int (length (filter visible l)),
      Max (insert m (set (map (\<lambda>c. fst (preferred_height c (- 1))) (filter visible l)))),
      Max (insert t (set (map (\<lambda>c. snd (preferred_height c (- 1))) (filter visible l)))))"
proof (induction l arbitrary: n m t)
  case Nil
  then show ?case by simp
next
  case (Cons c l)
  then show ?case
    by (auto split: prod.splits simp: Max_insert_max)
qed

lemma spacing_term_guint:
  "(if int n > 1 then guint_of (int (spacing priv) * (int n - 1)) else 0)
     = (if n > 1 then (spacing priv * (n - 1)) mod 2 ^ 32 else 0)"
proof (cases "n > 1")
  case True
  then have "0 < n" by simp
  from guint_of_product [OF this, of "spacing priv"] True show ?thesis
    by (simp add: mult.commute)
next
  case False
  then show ?thesis by simp
qed

lemma spacing_term_code:
  "Suc 0 < n \<Longrightarrow>
     rat_of_nat (guint_of (int (spacing priv) * (int n - 1))) = spacing_term priv n"
  "\<not> Suc 0 < n \<Longrightarrow> spacing_term priv n = 0"
  using spacing_term_guint [of n priv] by (simp_all add: spacing_term_def)

lemma horizontal_width:
  assumes "\<not> is_vertical priv"
  shows "get_preferred_width priv container for_height =
     (sum_list (map (\<lambda>c. fst (preferred_width c for_height)) (visible_children container))
        + spacing_term priv (length (visible_children container)),
      sum_list (map (\<lambda>c. snd (preferred_width c for_height)) (visible_children container))
        + spacing_term priv (length (visible_children container)))"
  using assms
  by (simp add: get_preferred_width_def preferred_width_loop_sum visible_children_def
        spacing_term_code rev_filter [symmetric] rev_map [symmetric] Let_def)

lemma vertical_height:
  assumes "is_vertical priv"
  shows "get_preferred_height priv container for_width =
     (sum_list (map (\<lambda>c. fst (preferred_height c for_width)) (visible_children container))
        + spacing_term priv (length (visible_children container)),
      sum_list (map (\<lambda>c. snd (preferred_height c for_width)) (visible_children container))
        + spacing_term priv (length (visible_children container)))"
  using assms
  by (simp add: get_preferred_height_def preferred_height_loop_sum visible_children_def
        spacing_term_code Let_def)

lemma vertical_width:
  assumes "is_vertical priv"
  shows "get_preferred_width priv container for_height =
     (largest (map (\<lambda>c. fst (preferred_width c (- 1))) (visible_children container)),
      largest (map (\<lambda>c. snd (preferred_width c (- 1))) (visible_children container)))"
  using assms
  by (simp add: get_preferred_width_def preferred_width_loop_max visible_children_def
        largest_def Let_def)

lemma horizontal_height:
  assumes "\<not> is_vertical priv"
  shows "get_preferred_height priv container for_width =
     (largest (map (\<lambda>c. fst (preferred_height c (- 1))) (visible_children container)),
      largest (map (\<lambda>c. snd (preferred_height c (- 1))) (visible_children container)))"
  using assms
  by (simp add: get_preferred_height_def preferred_height_loop_max visible_children_def
        largest_def Let_def)

lemma largest_is_Max:
  "sizes \<noteq> [] \<Longrightarrow> \<forall>s \<in> set sizes. 0 \<le> s \<Longrightarrow> largest sizes = Max (set sizes)"
proof -
  assume ne: "sizes \<noteq> []" and nn: "\<forall>s \<in> set sizes. 0 \<le> s"
  then have "0 \<le> Max (set sizes)"
    by (metis List.finite_set Max_ge_iff hd_in_set set_empty)
  with ne show ?thesis by (simp add: largest_def max_def)
qed

text \<open>
  C6. Along the axis of the box (the width of a horizontal box, the height of a vertical
  one) the preferred size is the sum of the minimum, respectively natural, sizes of the
  visible children, plus the spacing term when more than one child is visible and nothing
  otherwise. The spacing term is the \<^verbatim>\<open>guint\<close> product \<open>spacing * (n - 1)\<close>, that is the
  product modulo \<open>2 ^ 32\<close>, and the product itself when that is below \<open>2 ^ 32\<close>. Across the
  axis the preferred size is the largest of \<open>0\<close> and the children's sizes, without
  spacing: the loops start from \<open>0\<close>, so the result is the maximum of the children's sizes
  when a child is visible and no size is negative. A child that is not visible changes
  neither result. The spacing term and the maximum of the specification are not what the
  code computes for a product of \<open>2 ^ 32\<close> or more and for negative sizes: see the
  counterexample.
\<close>

theorem preferred_size_of_box:
  "(\<not> is_vertical priv \<longrightarrow>
      get_preferred_width priv container for_size =
        (sum_list (map (\<lambda>c. fst (preferred_width c for_size)) (visible_children container))
           + spacing_term priv (length (visible_children container)),
         sum_list (map (\<lambda>c. snd (preferred_width c for_size)) (visible_children container))
           + spacing_term priv (length (visible_children container)))
      \<and> get_preferred_height priv container for_size =
        (largest (map (\<lambda>c. fst (preferred_height c (- 1))) (visible_children container)),
         largest (map (\<lambda>c. snd (preferred_height c (- 1))) (visible_children container))))
   \<and> (is_vertical priv \<longrightarrow>
      get_preferred_height priv container for_size =
        (sum_list (map (\<lambda>c. fst (preferred_height c for_size)) (visible_children container))
           + spacing_term priv (length (visible_children container)),
         sum_list (map (\<lambda>c. snd (preferred_height c for_size)) (visible_children container))
           + spacing_term priv (length (visible_children container)))
      \<and> get_preferred_width priv container for_size =
        (largest (map (\<lambda>c. fst (preferred_width c (- 1))) (visible_children container)),
         largest (map (\<lambda>c. snd (preferred_width c (- 1))) (visible_children container))))
   \<and> get_preferred_width priv container for_size =
       get_preferred_width priv (container\<lparr>get_children := visible_children container\<rparr>) for_size
   \<and> get_preferred_height priv container for_size =
       get_preferred_height priv (container\<lparr>get_children := visible_children container\<rparr>) for_size
   \<and> (\<forall>n \<le> 1. spacing_term priv n = 0)
   \<and> (\<forall>n > 1. spacing_term priv n = of_nat ((spacing priv * (n - 1)) mod 2 ^ 32))
   \<and> (\<forall>n > 1. spacing priv * (n - 1) < 2 ^ 32 \<longrightarrow>
                 spacing_term priv n = of_nat (spacing priv * (n - 1)))
   \<and> (\<forall>sizes. largest sizes = Max (insert 0 (set sizes)))
   \<and> (\<forall>sizes. sizes \<noteq> [] \<and> (\<forall>s \<in> set sizes. 0 \<le> s) \<longrightarrow> largest sizes = Max (set sizes))"
proof -
  have same: "visible_children (container\<lparr>get_children := visible_children container\<rparr>)
                = visible_children container"
    by (simp add: visible_children_def)
  have "get_preferred_width priv container for_size =
       get_preferred_width priv (container\<lparr>get_children := visible_children container\<rparr>) for_size"
  proof (cases "is_vertical priv")
    case True
    show ?thesis
      unfolding vertical_width [OF True, of container] same
        vertical_width [OF True, of "container\<lparr>get_children := visible_children container\<rparr>"]
      by (rule refl)
  next
    case False
    show ?thesis
      unfolding horizontal_width [OF False, of container] same
        horizontal_width [OF False, of "container\<lparr>get_children := visible_children container\<rparr>"]
      by (rule refl)
  qed
  moreover have "get_preferred_height priv container for_size =
       get_preferred_height priv (container\<lparr>get_children := visible_children container\<rparr>) for_size"
  proof (cases "is_vertical priv")
    case True
    show ?thesis
      unfolding vertical_height [OF True, of container] same
        vertical_height [OF True, of "container\<lparr>get_children := visible_children container\<rparr>"]
      by (rule refl)
  next
    case False
    show ?thesis
      unfolding horizontal_height [OF False, of container] same
        horizontal_height [OF False, of "container\<lparr>get_children := visible_children container\<rparr>"]
      by (rule refl)
  qed
  moreover have "\<forall>n \<le> 1. spacing_term priv n = 0"
    and "\<forall>n > 1. spacing_term priv n = of_nat ((spacing priv * (n - 1)) mod 2 ^ 32)"
    and "\<forall>n > 1. spacing priv * (n - 1) < 2 ^ 32 \<longrightarrow>
                 spacing_term priv n = of_nat (spacing priv * (n - 1))"
    and "\<forall>sizes. largest sizes = Max (insert 0 (set sizes))"
    by (simp_all add: spacing_term_def largest_def)
  ultimately show ?thesis
    using horizontal_width [of priv container for_size] vertical_width [of priv container for_size]
      horizontal_height [of priv container for_size] vertical_height [of priv container for_size]
      largest_is_Max
    by blast
qed

theorem preferred_size_of_box_witness:
  "get_preferred_width
      \<lparr>spacing = 5, is_vertical = False, is_pack_start = True, is_homogeneous = False\<rparr>
      \<lparr>get_children = [filling_child 10 10 False, (filling_child 100 100 False)\<lparr>visible := False\<rparr>,
                       filling_child 20 20 True, filling_child 30 35 False],
       get_text_direction = CLUTTER_TEXT_DIRECTION_LTR\<rparr> 7 = (70, 75)
   \<and> get_preferred_height
      \<lparr>spacing = 5, is_vertical = False, is_pack_start = True, is_homogeneous = False\<rparr>
      \<lparr>get_children = [filling_child 10 10 False, (filling_child 100 100 False)\<lparr>visible := False\<rparr>,
                       filling_child 20 20 True, filling_child 30 35 False],
       get_text_direction = CLUTTER_TEXT_DIRECTION_LTR\<rparr> 7 = (30, 35)"
  using preferred_size_of_box
    [of "\<lparr>spacing = 5, is_vertical = False, is_pack_start = True, is_homogeneous = False\<rparr>"
        "\<lparr>get_children = [filling_child 10 10 False, (filling_child 100 100 False)\<lparr>visible := False\<rparr>,
                       filling_child 20 20 True, filling_child 30 35 False],
          get_text_direction = CLUTTER_TEXT_DIRECTION_LTR\<rparr>" 7]
  by (simp add: visible_children_def spacing_term_def largest_def filling_child_def)

theorem preferred_size_of_box_counterexample:
  "get_preferred_width
      \<lparr>spacing = 4294967295, is_vertical = False, is_pack_start = True, is_homogeneous = False\<rparr>
      \<lparr>get_children = [filling_child 1 1 False, filling_child 1 1 False, filling_child 1 1 False],
       get_text_direction = CLUTTER_TEXT_DIRECTION_LTR\<rparr> (- 1) = (4294967297, 4294967297)
   \<and> spec_measure_primary 4294967295 [1, 1, 1] = 8589934593
   \<and> get_preferred_height
      \<lparr>spacing = 5, is_vertical = False, is_pack_start = True, is_homogeneous = False\<rparr>
      \<lparr>get_children = [filling_child (- 5) (- 5) False],
       get_text_direction = CLUTTER_TEXT_DIRECTION_LTR\<rparr> (- 1) = (0, 0)
   \<and> spec_measure_cross [- 5] = - 5"
  by (simp add: get_preferred_width_def get_preferred_height_def filling_child_def guint_of_def
        spec_measure_primary_def spec_measure_cross_def Let_def)
section \<open>The gap distributor, step by step\<close>

lemma floor_rat_numeral_div [simp]:
  "\<lfloor>(numeral a :: rat) / numeral b\<rfloor> = numeral a div numeral b"
  using floor_divide_of_int_eq [of "numeral a" "numeral b", where ?'a = rat] by simp

lemma ceiling_rat_neg_numeral_div [simp]:
  "\<lceil>- (numeral a :: rat) / numeral b\<rceil> = - (numeral a div numeral b)"
  by (simp add: ceiling_def)



lemma gfloat_to_gint_of_int [simp]: "gfloat_to_gint (of_int k) = k"
  by (simp add: gfloat_to_gint_def)


















section \<open>The sizes of the second loop\<close>

lemma assign_size_no_wrap:
  assumes "takes_bonus priv child \<Longrightarrow> in_gint (base_size beyond priv sizes i + extra)"
    and "takes_bonus priv child \<Longrightarrow> 0 < n \<Longrightarrow>
           in_gint (base_size beyond priv sizes i + extra + 1)"
    and "n < 2 ^ 31"
  shows "assign_size beyond priv sizes extra i child n =
     (if takes_bonus priv child
      then (base_size beyond priv sizes i + extra + (if 0 < n then 1 else 0),
            if 0 < n then n - 1 else n)
      else (base_size beyond priv sizes i, n))"
proof -
  have down: "gint_of (n - 1) = n - 1" if "0 < n"
    using that assms(3) by (intro gint_of_in_gint) (simp add: in_gint_def)
  show ?thesis
  proof (cases "is_homogeneous priv")
    case True
    then have t: "takes_bonus priv child" and b: "base_size beyond priv sizes i = 0"
      by (simp_all add: takes_bonus_def base_size_def)
    have "gint_of (extra + 1) = extra + 1" if "0 < n"
      using assms(2) [OF t that] b by (intro gint_of_in_gint) simp
    with True t b down show ?thesis
      by (simp add: assign_size_def)
  next
    case False
    let ?b = "gfloat_to_gint (minimum_size (sizes_at beyond sizes i))"
    have b: "base_size beyond priv sizes i = ?b"
      using False by (simp add: base_size_def)
    show ?thesis
    proof (cases "expand child")
      case no: False
      with False b show ?thesis
        by (simp add: assign_size_def takes_bonus_def Let_def)
    next
      case True
      then have t: "takes_bonus priv child" by (simp add: takes_bonus_def)
      have w1: "gint_of (?b + extra) = ?b + extra"
        using assms(1) [OF t] b by (intro gint_of_in_gint) simp
      have w2: "gint_of (?b + extra + 1) = ?b + extra + 1" if "0 < n"
        using assms(2) [OF t that] b by (intro gint_of_in_gint) simp
      from False True t b w1 w2 down show ?thesis
        by (simp add: assign_size_def Let_def)
    qed
  qed
qed

lemma allocate_loop_sizes:
  assumes "\<forall>p \<in> set items. visible (snd p) \<and> takes_bonus priv (snd p) \<longrightarrow>
             in_gint (base_size beyond priv sizes (fst p) + extra)
             \<and> (0 < n \<longrightarrow> in_gint (base_size beyond priv sizes (fst p) + extra + 1))"
    and "n < 2 ^ 31"
  shows "map call_child_size
           (allocate_loop beyond priv box is_rtl sizes extra items child_allocation n x y)
         = share_out extra n
             (map (\<lambda>p. (base_size beyond priv sizes (fst p), takes_bonus priv (snd p)))
                (filter (\<lambda>p. visible (snd p)) items))"
  using assms
proof (induction items arbitrary: child_allocation n x y)
  case Nil
  then show ?case by simp
next
  case (Cons p items)
  obtain i child where p: "p = (i, child)" by (cases p)
  show ?case
  proof (cases "visible child")
    case False
    with Cons p show ?thesis
      by (simp del: allocate_loop.simps add: allocate_loop_hidden)
  next
    case True
    let ?n' = "if takes_bonus priv child \<and> 0 < n then n - 1 else n"
    have sz: "assign_size beyond priv sizes extra i child n =
       (if takes_bonus priv child
        then (base_size beyond priv sizes i + extra + (if 0 < n then 1 else 0),
              if 0 < n then n - 1 else n)
        else (base_size beyond priv sizes i, n))"
      using Cons.prems True p by (intro assign_size_no_wrap) simp_all
    have rest: "map call_child_size
           (allocate_loop beyond priv box is_rtl sizes extra items ca ?n' a b)
         = share_out extra ?n'
             (map (\<lambda>p. (base_size beyond priv sizes (fst p), takes_bonus priv (snd p)))
                (filter (\<lambda>p. visible (snd p)) items))" for ca a b
    proof (rule Cons.IH)
      show "\<forall>p \<in> set items. visible (snd p) \<and> takes_bonus priv (snd p) \<longrightarrow>
             in_gint (base_size beyond priv sizes (fst p) + extra)
             \<and> (0 < ?n' \<longrightarrow> in_gint (base_size beyond priv sizes (fst p) + extra + 1))"
        using Cons.prems(1) by auto
      show "?n' < 2 ^ 31" using Cons.prems(2) by simp
    qed
    show ?thesis
    proof (cases "takes_bonus priv child")
      case t: True
      with True p sz rest show ?thesis
        by (simp del: allocate_loop.simps add: allocate_loop_visible)
    next
      case f: False
      with True p sz rest show ?thesis
        by (simp del: allocate_loop.simps add: allocate_loop_visible)
    qed
  qed
qed

lemma length_share_out: "length (share_out extra n bs) = length bs"
  by (induction bs arbitrary: n) (auto split: prod.splits)

lemma share_out_nth:
  "j < length bs \<Longrightarrow>
     share_out extra n bs ! j =
       fst (bs ! j)
       + (if snd (bs ! j)
          then extra + (if int (length (filter snd (take j bs))) < n then 1 else 0)
          else 0)"
proof (induction bs arbitrary: n j)
  case Nil
  then show ?case by simp
next
  case (Cons b bs)
  obtain base takes where b: "b = (base, takes)" by (cases b)
  show ?case
  proof (cases j)
    case 0
    with b show ?thesis by simp
  next
    case (Suc k)
    with Cons.prems have k: "k < length bs" by simp
    show ?thesis
      using Cons.IH [OF k] b Suc by auto
  qed
qed

lemma sum_list_share_out:
  "sum_list (share_out extra n bs)
     = sum_list (map fst bs) + handed_out extra n (length (filter snd bs))"
proof (induction bs arbitrary: n)
  case Nil
  then show ?case by (simp add: handed_out_def)
next
  case (Cons b bs)
  obtain base takes where b: "b = (base, takes)" by (cases b)
  show ?case
    using Cons.IH [of n] Cons.IH [of "n - 1"] b
    by (auto simp: handed_out_def algebra_simps min_def max_def)
qed


section \<open>Homogeneous mode\<close>

lemma map_upt_Suc_shift:
  "map f [0..<Suc m] = f 0 # map (\<lambda>k. f (Suc k)) [0..<m]"
  by (simp add: upt_conv_Cons map_Suc_upt [symmetric] del: upt_Suc)

lemma div_le_self_int:
  fixes b n :: int
  assumes "0 \<le> b" and "0 < n"
  shows "0 \<le> b div n" and "b div n \<le> b" and "0 \<le> b mod n" and "b mod n \<le> b"
proof -
  show "0 \<le> b div n" using assms by (simp add: pos_imp_zdiv_nonneg_iff)
  have "b div n \<le> b div 1" using assms by (intro zdiv_mono2) simp_all
  then show "b div n \<le> b" by simp
  show "0 \<le> b mod n" using assms by simp
  show "b mod n \<le> b" using assms by (simp add: zmod_le_nonneg_dividend)
qed

lemma sdiv_neg_dividend:
  fixes a n :: int
  assumes "a < 0" and "0 < n"
  shows "a sdiv n = - ((- a) div n)" and "a smod n = - ((- a) mod n)"
  using assms by (simp_all add: signed_divide_int_def signed_modulo_int_def sgn_if)

lemma sdiv_smod_nonneg:
  fixes a n :: int
  assumes "0 \<le> a" and "0 < n"
  shows "a sdiv n = a div n" and "a smod n = a mod n"
  using assms by (simp_all add: signed_divide_int_def signed_modulo_int_def sgn_if)

lemma sdiv_in_gint:
  assumes "in_gint a" and "0 < n"
  shows "in_gint (a sdiv n)"
proof (cases "0 \<le> a")
  case True
  with div_le_self_int(1,2) [OF True assms(2)] assms show ?thesis
    by (simp add: sdiv_smod_nonneg in_gint_def)
next
  case False
  then have neg: "a < 0" and pos: "0 \<le> - a" by simp_all
  from div_le_self_int(1,2) [OF pos assms(2)] assms(1) show ?thesis
    by (simp add: sdiv_neg_dividend [OF neg assms(2)] in_gint_def)
qed

lemma smod_below:
  assumes "in_gint a" and "0 \<le> n"
  shows "a smod n < 2 ^ 31"
proof (cases "n = 0")
  case True
  with assms(1) show ?thesis
    by (simp add: signed_modulo_int_def sgn_if in_gint_def)
next
  case False
  with assms(2) have n: "0 < n" by simp
  show ?thesis
  proof (cases "0 \<le> a")
    case True
    with div_le_self_int(4) [OF True n] assms(1) n show ?thesis
      by (simp add: sdiv_smod_nonneg in_gint_def)
  next
    case False
    then have neg: "a < 0" and pos: "0 \<le> - a" by simp_all
    from div_le_self_int(3) [OF pos n] show ?thesis
      by (simp add: sdiv_neg_dividend [OF neg n])
  qed
qed

lemma sdiv_succ_le:
  fixes a n :: int
  assumes "0 < n" and "0 < a smod n"
  shows "0 < a" and "a sdiv n + 1 \<le> a" and "0 \<le> a sdiv n"
proof -
  show a: "0 < a"
  proof (rule ccontr)
    assume na: "\<not> 0 < a"
    show False
    proof (cases "a = 0")
      case True
      with assms(2) show False by (simp add: signed_modulo_int_def)
    next
      case False
      with na have neg: "a < 0" and pos: "0 \<le> - a" by simp_all
      from div_le_self_int(3) [OF pos assms(1)] assms(2) show False
        by (simp add: sdiv_neg_dividend [OF neg assms(1)])
    qed
  qed
  then have a0: "0 \<le> a" by simp
  have m: "a smod n = a mod n" and d: "a sdiv n = a div n"
    using a0 assms(1) by (rule sdiv_smod_nonneg)+
  have "n \<noteq> 1" using assms(2) m by auto
  with assms(1) have n2: "2 \<le> n" by simp
  have "a div n \<le> a div 2"
    using a n2 by (intro zdiv_mono2) simp_all
  moreover have "a div 2 + 1 \<le> a" using a by linarith
  ultimately show "a sdiv n + 1 \<le> a" using d by simp
  show "0 \<le> a sdiv n"
    using div_le_self_int(1) [OF a0 assms(1)] d by simp
qed

lemma no_visible_positions:
  "visible_children container = [] \<Longrightarrow> visible_positions container = []"
proof -
  assume "visible_children container = []"
  then have "\<forall>c \<in> set (get_children container). \<not> visible c"
    by (simp add: visible_children_def filter_empty_conv)
  then show ?thesis
    by (simp add: visible_positions_def filter_empty_conv)
qed

text \<open>
  C4. In homogeneous mode, when the visible children pass the checks of the first loop
  and \<open>available\<close>, the extent of the box along its axis minus the \<^verbatim>\<open>guint\<close> product
  \<open>spacing * (n - 1)\<close>, is in the range of \<^verbatim>\<open>gint\<close>, the \<open>n\<close> visible children are served
  from the last one to the first, whatever the stack holds behind the array \<open>sizes\<close>,
  and the \<open>k\<close>-th child served gets \<open>available / n\<close>, plus one when \<open>k < available % n\<close>,
  with the division and the remainder of C. Requests and \<open>expand\<close> flags play no part.
  For \<open>available \<ge> 0\<close> these are the floor and the modulus of the specification; in
  every case two sizes differ by at most one. The specification's floor and modulus are
  not what a negative \<open>available\<close> gives, and its product is not the one of the code
  from \<open>2 ^ 32\<close> on: see the counterexample.
\<close>

theorem homogeneous_sizes:
  assumes "is_homogeneous priv"
    and "\<forall>child \<in> set (visible_children container). consistent (request_of priv box child)"
    and "in_gint (available_space priv container box)"
  shows "\<exists>calls. clutter_box_layout_allocate beyond priv container box = Inr calls
       \<and> map call_child calls = rev (visible_positions container)
       \<and> map call_child_size calls =
           map (\<lambda>k. available_space priv container box sdiv int (length (visible_children container))
                      + (if int k < available_space priv container box
                                      smod int (length (visible_children container))
                         then 1 else 0))
             [0..<length (visible_children container)]
       \<and> (0 \<le> available_space priv container box \<longrightarrow>
            map call_child_size calls =
              spec_homogeneous_sizes (available_space priv container box)
                (length (visible_children container)))
       \<and> (\<forall>s \<in> set (map call_child_size calls). \<forall>t \<in> set (map call_child_size calls).
            s - t \<le> 1)"
proof -
  let ?n = "length (visible_children container)"
  let ?a = "available_space priv container box"
  let ?items = "rev (zip [0..<length (get_children container)] (get_children container))"
  let ?vs = "filter (\<lambda>p. visible (snd p)) ?items"
  have bonus: "expand_bonus priv container box sz sizes = (?a sdiv int ?n, ?a smod int ?n)"
    for sz sizes
    using assms(1) by (simp add: expand_bonus_def)
  from allocate_consistent [OF assms(2), of beyond] obtain is_rtl sizes ca x y where
    run: "clutter_box_layout_allocate beyond priv container box =
            Inr (allocate_loop beyond priv box is_rtl sizes (?a sdiv int ?n) ?items ca
                   (?a smod int ?n) x y)"
    unfolding bonus fst_conv snd_conv by blast
  let ?bs = "map (\<lambda>p. (base_size beyond priv sizes (fst p), takes_bonus priv (snd p))) ?vs"
  let ?calls = "allocate_loop beyond priv box is_rtl sizes (?a sdiv int ?n) ?items ca
                  (?a smod int ?n) x y"
  have order: "map call_child ?calls = rev (visible_positions container)"
    by (simp only: allocate_loop_children filter_visible_rev_zip visible_positions_def)
  have len: "length ?vs = ?n"
    by (simp only: length_filter_visible_zip visible_children_def)
  have fits: "\<forall>p \<in> set ?items. visible (snd p) \<and> takes_bonus priv (snd p) \<longrightarrow>
             in_gint (base_size beyond priv sizes (fst p) + ?a sdiv int ?n)
             \<and> (0 < ?a smod int ?n \<longrightarrow>
                  in_gint (base_size beyond priv sizes (fst p) + ?a sdiv int ?n + 1))"
  proof (intro ballI impI)
    fix p assume p: "p \<in> set ?items" and v: "visible (snd p) \<and> takes_bonus priv (snd p)"
    from p have "(fst p, snd p) \<in> set ?items" by simp
    then have "fst p < length (get_children container)"
      and "snd p = get_children container ! fst p"
      by (simp_all only: in_set_rev_zip_upt)
    then have "snd p \<in> set (get_children container)" by simp
    with v have "snd p \<in> set (visible_children container)"
      by (simp add: visible_children_def)
    then have n: "0 < int ?n" by (cases "visible_children container") simp_all
    have b: "base_size beyond priv sizes (fst p) = 0"
      using assms(1) by (simp add: base_size_def)
    have one: "in_gint (?a sdiv int ?n)"
      using assms(3) n by (rule sdiv_in_gint)
    have two: "in_gint (?a sdiv int ?n + 1)" if "0 < ?a smod int ?n"
      using sdiv_succ_le [OF n that] assms(3) by (simp add: in_gint_def)
    from one two show "in_gint (base_size beyond priv sizes (fst p) + ?a sdiv int ?n)
             \<and> (0 < ?a smod int ?n \<longrightarrow>
                  in_gint (base_size beyond priv sizes (fst p) + ?a sdiv int ?n + 1))"
      by (simp add: b)
  qed
  have below: "?a smod int ?n < 2 ^ 31"
    using assms(3) by (rule smod_below) simp
  have shared: "map call_child_size ?calls = share_out (?a sdiv int ?n) (?a smod int ?n) ?bs"
    using fits below by (rule allocate_loop_sizes)
  have each: "?bs ! k = (0, True)" if "k < ?n" for k
    using that len assms(1) by (simp add: base_size_def takes_bonus_def)
  have all: "filter snd (take k ?bs) = take k ?bs" for k
  proof (rule filter_True)
    show "\<forall>b \<in> set (take k ?bs). snd b"
      using assms(1) by (auto simp: takes_bonus_def dest!: in_set_takeD)
  qed
  have sizes: "map call_child_size ?calls =
           map (\<lambda>k. ?a sdiv int ?n + (if int k < ?a smod int ?n then 1 else 0)) [0..<?n]"
  proof (rule nth_equalityI)
    show "length (map call_child_size ?calls)
            = length (map (\<lambda>k. ?a sdiv int ?n + (if int k < ?a smod int ?n then 1 else 0))
                        [0..<?n])"
      by (simp only: shared length_share_out length_map len) simp
  next
    fix k assume "k < length (map call_child_size ?calls)"
    then have k: "k < ?n"
      by (simp only: shared length_share_out length_map len)
    then have kb: "k < length ?bs" by (simp only: length_map len)
    have "length (take k ?bs) = k" using kb by simp
    then have "length (filter snd (take k ?bs)) = k" by (simp only: all)
    with share_out_nth [OF kb, of "?a sdiv int ?n" "?a smod int ?n"] each [OF k] k
    show "map call_child_size ?calls ! k
            = map (\<lambda>k. ?a sdiv int ?n + (if int k < ?a smod int ?n then 1 else 0)) [0..<?n] ! k"
      by (simp only: shared) simp
  qed
  have floor: "map call_child_size ?calls = spec_homogeneous_sizes ?a ?n" if "0 \<le> ?a"
  proof (cases "?n = 0")
    case True
    have "map (\<lambda>k. ?a sdiv int ?n + (if int k < ?a smod int ?n then 1 else 0)) [0..<?n]
            = spec_homogeneous_sizes ?a ?n"
      unfolding spec_homogeneous_sizes_def True by simp
    then show ?thesis by (simp only: sizes)
  next
    case False
    then have "0 < int ?n" by simp
    with that have "map (\<lambda>k. ?a sdiv int ?n + (if int k < ?a smod int ?n then 1 else 0)) [0..<?n]
            = spec_homogeneous_sizes ?a ?n"
      unfolding spec_homogeneous_sizes_def by (simp add: sdiv_smod_nonneg)
    then show ?thesis by (simp only: sizes)
  qed
  have close: "s - t \<le> 1"
    if "s \<in> set (map call_child_size ?calls)" and "t \<in> set (map call_child_size ?calls)"
    for s t
    using that unfolding sizes by auto
  show ?thesis
    using run order sizes floor close by blast
qed

theorem homogeneous_sizes_witness:
  "is_homogeneous
      \<lparr>spacing = 10, is_vertical = False, is_pack_start = True, is_homogeneous = True\<rparr>
   \<and> list_all (\<lambda>child. consistent
         (request_of \<lparr>spacing = 10, is_vertical = False, is_pack_start = True,
                       is_homogeneous = True\<rparr> (box_of_size 100 50) child))
       (visible_children
          \<lparr>get_children = [filling_child 10 10 False, filling_child 20 20 True,
                           filling_child 30 30 False],
           get_text_direction = CLUTTER_TEXT_DIRECTION_LTR\<rparr>)
   \<and> available_space
        \<lparr>spacing = 10, is_vertical = False, is_pack_start = True, is_homogeneous = True\<rparr>
        \<lparr>get_children = [filling_child 10 10 False, filling_child 20 20 True,
                         filling_child 30 30 False],
         get_text_direction = CLUTTER_TEXT_DIRECTION_LTR\<rparr>
        (box_of_size 100 50) = 80
   \<and> in_gint 80
   \<and> (\<exists>calls.
        clutter_box_layout_allocate zeroed
          \<lparr>spacing = 10, is_vertical = False, is_pack_start = True, is_homogeneous = True\<rparr>
          \<lparr>get_children = [filling_child 10 10 False, filling_child 20 20 True,
                           filling_child 30 30 False],
           get_text_direction = CLUTTER_TEXT_DIRECTION_LTR\<rparr>
          (box_of_size 100 50) = Inr calls
        \<and> map call_child calls = [2, 1, 0]
        \<and> map call_child_size calls = [27, 27, 26]
        \<and> map call_child_size calls = spec_homogeneous_sizes 80 3)"
proof -
  let ?priv = "\<lparr>spacing = 10, is_vertical = False, is_pack_start = True,
                 is_homogeneous = True\<rparr>"
  let ?container = "\<lparr>get_children = [filling_child 10 10 False, filling_child 20 20 True,
                                       filling_child 30 30 False],
                      get_text_direction = CLUTTER_TEXT_DIRECTION_LTR\<rparr>"
  have hom: "is_homogeneous ?priv" by simp
  have ok: "\<forall>child \<in> set (visible_children ?container).
              consistent (request_of ?priv (box_of_size 100 50) child)"
    by (simp add: visible_children_def filling_child_def request_of_def consistent_def)
  have n: "length (visible_children ?container) = 3"
    by (simp add: visible_children_def filling_child_def)
  have avail: "available_space ?priv ?container (box_of_size 100 50) = 80"
    by (simp add: available_space_def n box_of_size_def primary_extent_def gfloat_to_gint_def)
  have range: "in_gint (available_space ?priv ?container (box_of_size 100 50))"
    by (simp add: avail in_gint_def)
  have positions: "rev (visible_positions ?container) = [2, 1, 0]"
    by (simp add: visible_positions_def filling_child_def upt_rec)
  have vals: "map (\<lambda>k. (80 :: int) sdiv int 3 + (if int k < 80 smod int 3 then 1 else 0))
                  [0..<3] = [27, 27, 26]"
    by (simp add: upt_rec signed_divide_int_def signed_modulo_int_def)
  have spec: "spec_homogeneous_sizes 80 3 = [27, 27, 26]"
    by (simp add: spec_homogeneous_sizes_def upt_rec)
  from homogeneous_sizes [OF hom ok range, of zeroed] obtain calls where
    "clutter_box_layout_allocate zeroed ?priv ?container (box_of_size 100 50) = Inr calls"
    and "map call_child calls = [2, 1, 0]"
    and "map call_child_size calls = [27, 27, 26]"
    unfolding n avail positions vals spec by auto
  with ok range hom show ?thesis
    unfolding avail spec by (auto simp: list_all_iff)
qed

theorem homogeneous_floor_counterexample:
  "map_sum id (map call_child_size)
     (clutter_box_layout_allocate zeroed
        \<lparr>spacing = 3, is_vertical = False, is_pack_start = True, is_homogeneous = True\<rparr>
        \<lparr>get_children = [filling_child 10 10 False, filling_child 20 20 True,
                         filling_child 30 30 False],
         get_text_direction = CLUTTER_TEXT_DIRECTION_LTR\<rparr>
        (box_of_size 1 50))
   = Inr [- 1, - 1, - 1]
   \<and> map_sum id (map call_child_size)
     (clutter_box_layout_allocate zeroed
        \<lparr>spacing = 3, is_vertical = False, is_pack_start = True, is_homogeneous = True\<rparr>
        \<lparr>get_children = [filling_child 10 10 False, filling_child 20 20 True,
                         filling_child 30 30 False],
         get_text_direction = CLUTTER_TEXT_DIRECTION_LTR\<rparr>
        (box_of_size 1 50))
   \<noteq> Inr (spec_homogeneous_sizes (- 5) 3)
   \<and> available_space
        \<lparr>spacing = 3, is_vertical = False, is_pack_start = True, is_homogeneous = True\<rparr>
        \<lparr>get_children = [filling_child 10 10 False, filling_child 20 20 True,
                         filling_child 30 30 False],
         get_text_direction = CLUTTER_TEXT_DIRECTION_LTR\<rparr>
        (box_of_size 1 50) = - 5
   \<and> spec_homogeneous_sizes (- 5) 3 = [- 1, - 2, - 2]
   \<and> map_sum id (map call_child_size)
     (clutter_box_layout_allocate zeroed
        \<lparr>spacing = 2147483648, is_vertical = False, is_pack_start = True,
          is_homogeneous = True\<rparr>
        \<lparr>get_children = [filling_child 1 1 False, filling_child 1 1 False,
                         filling_child 1 1 False],
         get_text_direction = CLUTTER_TEXT_DIRECTION_LTR\<rparr>
        (box_of_size 100 50))
   = Inr [34, 33, 33]
   \<and> spec_homogeneous_sizes (100 - 2147483648 * (3 - 1)) 3
       = [- 1431655732, - 1431655732, - 1431655732]"
  by (simp add: clutter_box_layout_allocate_def count_expand_children_def Let_def
        filling_child_def box_of_size_def gfloat_to_gint_def primary_extent_def
        assign_size_def assign_position_def upt_rec guint_of_def gint_of_def
        signed_divide_int_def signed_modulo_int_def
        available_space_def visible_children_def spec_homogeneous_sizes_def)
section \<open>More space never gives less\<close>






























end
